theory Spec2Isabelle
  imports Complex_Main
begin

unbundle bit_operations_syntax

section \<open>The XXZZ rotated surface code: circuits/xxzz.py\<close>

text \<open>
  A shallow embedding of \<^verbatim>\<open>topological_codes/circuits/xxzz.py\<close>. Python integers are
  \<^typ>\<open>int\<close> (\<open>div\<close> and \<open>mod\<close> round towards minus infinity, as \<open>//\<close> and \<open>%\<close> do),
  \<open>None\<close> is \<^term>\<open>None\<close>, every \<open>raise\<close> is a value of type \<open>error\<close>.
\<close>

subsection \<open>Errors\<close>

datatype error =
    LatticeError string
  | ValueError
  | IndexError
  | TypeError
  | AssertionError
  | ZeroDivisionError
  | CircuitError

subsection \<open>Parameters: \<open>_XXZZLattice.__init__\<close>, lines 87 to 100\<close>

text \<open>
  The dictionary \<open>params\<close> after construction holds the six keys below; the caller's
  dictionary is a partial map from which only \<open>"d"\<close> is read.
\<close>

record params =
  param_d :: int
  param_T :: int
  num_readout :: int
  num_lattice_readout :: int
  num_data :: int
  num_syn :: int

definition init_params :: "(string \<rightharpoonup> int) \<Rightarrow> error + params" where
  "init_params ps =
     (case ps ''d'' of
        None \<Rightarrow> Inl (LatticeError ''Please include a d param.'')
      | Some dd \<Rightarrow>
          if dd mod 2 \<noteq> 1 then Inl (LatticeError ''Surface code distance must be odd!'')
          else Inr \<lparr> param_d = dd, param_T = - 1, num_readout = - 1,
                     num_lattice_readout = - 1, num_data = dd ^ 2,
                     num_syn = (dd ^ 2 - 1) div 2 \<rparr>)"

subsection \<open>Plaquette records and the geometry: \<open>_geometry\<close>, lines 118 to 172\<close>

text \<open>
  A plaquette is the list \<open>[syn, top_l, top_r, bot_l, bot_r]\<close> of the source: the syndrome
  entry is always there, each of the four neighbours is an index or \<open>None\<close>. The same shape
  holds qubits once \<open>gen_qubit_indices_and_stabilizers\<close> has looked the indices up.
\<close>

record 'a plaquette =
  syndrome :: 'a
  top_l :: "'a option"
  top_r :: "'a option"
  bot_l :: "'a option"
  bot_r :: "'a option"

text \<open>\<open>idx_list[1:]\<close>: the four neighbour slots, in the order of the list.\<close>

definition neighbours :: "'a plaquette \<Rightarrow> 'a option list" where
  "neighbours q = [top_l q, top_r q, bot_l q, bot_r q]"

text \<open>\<open>range(n)\<close> for an integer \<open>n\<close>: empty when \<open>n \<le> 0\<close>.\<close>

definition py_range :: "int \<Rightarrow> int list" where
  "py_range n = [0..n - 1]"

definition per_row_x :: "int \<Rightarrow> int" where
  "per_row_x dd = (dd - 1) div 2"

definition per_row_z :: "int \<Rightarrow> int" where
  "per_row_z dd = (dd + 1) div 2"

text \<open>The body of the first loop (lines 133 to 152) for one value of \<open>syn\<close>.\<close>

definition mx_plaquette :: "int \<Rightarrow> int \<Rightarrow> int plaquette" where
  "mx_plaquette dd s =
     (let row = s div per_row_x dd;
          offset = s mod per_row_x dd;
          start = (row - 1) * dd;
          row_parity = row mod 2
      in if row = 0 then
           \<lparr> syndrome = s, top_l = None, top_r = None,
             bot_l = Some (s * 2), bot_r = Some (s * 2 + 1) \<rparr>
         else if row = dd then
           \<lparr> syndrome = s, top_l = Some (s * 2 + 1), top_r = Some (s * 2 + 2),
             bot_l = None, bot_r = None \<rparr>
         else
           \<lparr> syndrome = s,
             top_l = Some (start + (offset * 2) + row_parity),
             top_r = Some (start + (offset * 2) + row_parity + 1),
             bot_l = Some (start + dd + (offset * 2) + row_parity),
             bot_r = Some (start + dd + (offset * 2) + row_parity + 1) \<rparr>)"

text \<open>
  The body of the second loop (lines 155 to 171): the four indices are computed first and
  an edge column overwrites one pair with \<open>None\<close>.
\<close>

definition mz_row :: "int \<Rightarrow> int \<Rightarrow> int" where
  "mz_row dd s = s div per_row_z dd"

definition mz_offset :: "int \<Rightarrow> int \<Rightarrow> int" where
  "mz_offset dd s = s mod per_row_z dd"

definition mz_plaquette :: "int \<Rightarrow> int \<Rightarrow> int plaquette" where
  "mz_plaquette dd s =
     (let row = mz_row dd s;
          offset = mz_offset dd s;
          start = row * dd;
          row_parity = row mod 2;
          tl = start + (offset * 2) - row_parity;
          tr = start + (offset * 2) - row_parity + 1;
          bl = start + dd + (offset * 2) - row_parity;
          br = start + dd + (offset * 2) - row_parity + 1
      in if row_parity = 0 \<and> offset = per_row_z dd - 1 then
           \<lparr> syndrome = s, top_l = Some tl, top_r = None, bot_l = Some bl, bot_r = None \<rparr>
         else if row_parity = 1 \<and> offset = 0 then
           \<lparr> syndrome = s, top_l = None, top_r = Some tr, bot_l = None, bot_r = Some br \<rparr>
         else
           \<lparr> syndrome = s, top_l = Some tl, top_r = Some tr,
             bot_l = Some bl, bot_r = Some br \<rparr>)"

text \<open>The dictionary \<open>{"mx": [...], "mz": [...]}\<close>.\<close>

record geometry =
  mx :: "int plaquette list"
  mz :: "int plaquette list"

text \<open>
  \<open>_geometry\<close>. Both loops run over \<open>range(num_syn)\<close>; a loop that runs at all divides by
  its \<open>per_row\<close>, so a zero divisor raises in the first iteration, before anything is
  returned.
\<close>

definition geometry_of :: "params \<Rightarrow> error + geometry" where
  "geometry_of P =
     (let dd = param_d P in
      if py_range (num_syn P) \<noteq> [] \<and> per_row_x dd = 0 then Inl ZeroDivisionError
      else if py_range (num_syn P) \<noteq> [] \<and> per_row_z dd = 0 then Inl ZeroDivisionError
      else Inr \<lparr> mx = map (mx_plaquette dd) (py_range (num_syn P)),
                 mz = map (mz_plaquette dd) (py_range (num_syn P)) \<rparr>)"

text \<open>The parameters a lattice of distance \<open>dd\<close> is built with, whatever its counters are.\<close>

definition params_of_d :: "int \<Rightarrow> params \<Rightarrow> bool" where
  "params_of_d dd P \<longleftrightarrow>
     param_d P = dd \<and> num_data P = dd ^ 2 \<and> num_syn P = (dd ^ 2 - 1) div 2"

text \<open>How many records of a family name a data index among their neighbours.\<close>

definition occurrences :: "int plaquette list \<Rightarrow> int \<Rightarrow> nat" where
  "occurrences fam k = length (filter (\<lambda>q. Some k \<in> set (neighbours q)) fam)"


subsection \<open>Auxiliary functions of the proofs\<close>

text \<open>
  For an odd distance \<open>2 * p + 1\<close>: the only syndrome index of plaquette row \<open>r\<close> that can
  name the data index \<open>k\<close> among its neighbours, in the X family and in the Z family.
\<close>

definition sx :: "int \<Rightarrow> int \<Rightarrow> int \<Rightarrow> int" where
  "sx p k r = r * p + (k mod (2 * p + 1) - r mod 2) div 2"

definition sz :: "int \<Rightarrow> int \<Rightarrow> int \<Rightarrow> int" where
  "sz p k r = r * (p + 1) + (k mod (2 * p + 1) + r mod 2) div 2"

text \<open>The one plaquette row of each family that touches a given corner of the grid.\<close>

definition corner_row_x :: "int \<Rightarrow> int \<Rightarrow> int" where
  "corner_row_x p k = (if k = 0 then 0 else if k = 2 * p + 1 - 1 then 1
     else if k = (2 * p + 1) ^ 2 - (2 * p + 1) then 2 * p else 2 * p + 1)"

definition corner_row_z :: "int \<Rightarrow> int \<Rightarrow> int" where
  "corner_row_z p k = (if k = 0 \<or> k = 2 * p + 1 - 1 then 0 else 2 * p - 1)"


subsection \<open>Procedures on a mutable object\<close>

text \<open>
  A method that mutates an object and may raise is a function from the object's state to
  the exception raised, if any, and the state left behind. \<open>run\<close> is a block of statements:
  the first exception ends it.
\<close>

type_synonym 's proc = "'s \<Rightarrow> error option \<times> 's"

definition skip :: "'s proc" where
  "skip s = (None, s)"

definition raise :: "error \<Rightarrow> 's proc" where
  "raise e s = (Some e, s)"

fun run :: "'s proc list \<Rightarrow> 's proc" where
  "run [] s = (None, s)"
| "run (f # fs) s = (case f s of (None, s') \<Rightarrow> run fs s' | (Some e, s') \<Rightarrow> (Some e, s'))"

subsection \<open>The circuit under construction\<close>

text \<open>
  The quantum circuit is the collaborator of the source: an ordered program to which
  registers and instructions are appended. A qubit and a classical bit are a register name
  with an index. A gate called with \<open>None\<close> for a qubit is refused by the circuit.
\<close>

datatype qubit = Qubit string int

datatype clbit = Clbit string int

datatype instruction =
    Hadamard qubit
  | CNOT qubit qubit
  | Measure "qubit list" "clbit list"
  | Reset "qubit list"
  | Barrier

record circuit =
  cregs :: "(string \<times> int) list"
  instrs :: "instruction list"

definition emit :: "instruction \<Rightarrow> circuit proc" where
  "emit i c = (None, c\<lparr> instrs := instrs c @ [i] \<rparr>)"

definition circ_h :: "qubit \<Rightarrow> circuit proc" where
  "circ_h a = emit (Hadamard a)"

definition circ_cx :: "qubit option \<Rightarrow> qubit option \<Rightarrow> circuit proc" where
  "circ_cx a b =
     (case (a, b) of
        (Some control, Some target) \<Rightarrow> emit (CNOT control target)
      | _ \<Rightarrow> raise CircuitError)"

subsection \<open>The two stabilizer protocols: \<open>_XXXX.entangle\<close> and \<open>_ZZZZ.entangle\<close>\<close>

text \<open>
  \<open>self.qubit_indices\<close> is the plaquette, \<open>self.circ\<close> the circuit. A qubit object is
  truthy, so \<open>if top_r\<close> asks whether the slot is not \<open>None\<close>.
\<close>

definition XXXX_entangle :: "qubit plaquette \<Rightarrow> circuit proc" where
  "XXXX_entangle q =
     (if (top_r q \<noteq> None \<and> \<not> top_l q \<noteq> None) \<or> (bot_r q \<noteq> None \<and> \<not> bot_l q \<noteq> None)
      then raise (LatticeError ''Inconsistent X syndrome connections'')
      else run
        [circ_h (syndrome q),
         (if top_r q \<noteq> None
          then run [circ_cx (Some (syndrome q)) (top_r q), circ_cx (Some (syndrome q)) (top_l q)]
          else skip),
         (if bot_r q \<noteq> None
          then run [circ_cx (Some (syndrome q)) (bot_r q), circ_cx (Some (syndrome q)) (bot_l q)]
          else skip),
         circ_h (syndrome q)])"

definition ZZZZ_entangle :: "qubit plaquette \<Rightarrow> circuit proc" where
  "ZZZZ_entangle q =
     (if (top_r q \<noteq> None \<and> \<not> bot_r q \<noteq> None) \<or> (top_l q \<noteq> None \<and> \<not> bot_l q \<noteq> None)
      then raise (LatticeError ''Inconsistent Z syndrome connections'')
      else run
        [(if top_r q \<noteq> None
          then run [circ_cx (top_r q) (Some (syndrome q)), circ_cx (bot_r q) (Some (syndrome q))]
          else skip),
         (if top_l q \<noteq> None
          then run [circ_cx (top_l q) (Some (syndrome q)), circ_cx (bot_l q) (Some (syndrome q))]
          else skip)])"


subsection \<open>Python built-ins the decoder uses\<close>

text \<open>
  \<open>int(q)\<close> for a string of one character: the digit's value, \<open>ValueError\<close> otherwise.
\<close>

definition int_of_char :: "char \<Rightarrow> error + int" where
  "int_of_char c =
     (if c = CHR ''0'' then Inr 0 else if c = CHR ''1'' then Inr 1
      else if c = CHR ''2'' then Inr 2 else if c = CHR ''3'' then Inr 3
      else if c = CHR ''4'' then Inr 4 else if c = CHR ''5'' then Inr 5
      else if c = CHR ''6'' then Inr 6 else if c = CHR ''7'' then Inr 7
      else if c = CHR ''8'' then Inr 8 else if c = CHR ''9'' then Inr 9
      else Inl ValueError)"

text \<open>
  \<open>int(x, base=2)\<close> on the tokens of a transcript: a non-empty string of \<open>0\<close> and \<open>1\<close> is
  read most significant bit first; the empty string and a string with any other character
  raise \<open>ValueError\<close>. (Python reads a sign, a \<open>0b\<close> prefix, underscores between digits and
  surrounding blanks as well; no register readout holds them, and this model refuses them.)
\<close>

definition bit_of_char :: "char \<Rightarrow> error + int" where
  "bit_of_char c = (if c = CHR ''0'' then Inr 0 else if c = CHR ''1'' then Inr 1 else Inl ValueError)"

fun int_base2_acc :: "int \<Rightarrow> string \<Rightarrow> error + int" where
  "int_base2_acc acc [] = Inr acc"
| "int_base2_acc acc (c # cs) =
     (case bit_of_char c of Inl e \<Rightarrow> Inl e | Inr b \<Rightarrow> int_base2_acc (2 * acc + b) cs)"

definition int_base2 :: "string \<Rightarrow> error + int" where
  "int_base2 s = (if s = [] then Inl ValueError else int_base2_acc 0 s)"

text \<open>\<open>str(n)\<close> for an integer: its decimal digits, with a minus sign when negative.\<close>

definition digit_char :: "nat \<Rightarrow> char" where
  "digit_char n = ''0123456789'' ! n"

fun str_nat :: "nat \<Rightarrow> string" where
  "str_nat n = (if n < 10 then [digit_char n] else str_nat (n div 10) @ [digit_char (n mod 10)])"

declare str_nat.simps [simp del]

definition str_int :: "int \<Rightarrow> string" where
  "str_int i = (if i < 0 then CHR ''-'' # str_nat (nat (- i)) else str_nat (nat i))"

text \<open>A list comprehension whose element expression may raise: the first exception wins.\<close>

fun map_err :: "('a \<Rightarrow> error + 'b) \<Rightarrow> 'a list \<Rightarrow> error + 'b list" where
  "map_err f [] = Inr []"
| "map_err f (x # xs) =
     (case f x of
        Inl e \<Rightarrow> Inl e
      | Inr y \<Rightarrow> (case map_err f xs of Inl e \<Rightarrow> Inl e | Inr ys \<Rightarrow> Inr (y # ys)))"

text \<open>\<open>xs[i]\<close>: a negative index counts from the end, an index out of range raises.\<close>

definition py_index :: "'a list \<Rightarrow> int \<Rightarrow> error + 'a" where
  "py_index xs i =
     (if 0 \<le> i \<and> i < int (length xs) then Inr (xs ! nat i)
      else if i < 0 \<and> - int (length xs) \<le> i then Inr (xs ! nat (int (length xs) + i))
      else Inl IndexError)"

text \<open>The slices \<open>s[n:]\<close> and \<open>s[:n]\<close>; a negative bound counts from the end.\<close>

definition py_slice_from :: "'a list \<Rightarrow> int \<Rightarrow> 'a list" where
  "py_slice_from s n = (if 0 \<le> n then drop (nat n) s else drop (nat (int (length s) + n)) s)"

definition py_slice_to :: "'a list \<Rightarrow> int \<Rightarrow> 'a list" where
  "py_slice_to s n = (if 0 \<le> n then take (nat n) s else take (nat (int (length s) + n)) s)"

text \<open>\<open>range(0, stop, step)\<close>: a zero step raises.\<close>

definition py_range_step :: "int \<Rightarrow> int \<Rightarrow> error + int list" where
  "py_range_step stop step =
     (if step = 0 then Inl ValueError
      else if 0 < step then Inr (map (\<lambda>i. i * step) [0..(stop - 1) div step])
      else Inr (map (\<lambda>i. i * step) [0..(- stop - 1) div (- step)]))"

text \<open>\<open>s.split(" ")\<close>: every single blank separates, so the result is never empty.\<close>

fun split_sp :: "string \<Rightarrow> string list" where
  "split_sp [] = [[]]"
| "split_sp (c # cs) =
     (if c = CHR '' '' then [] # split_sp cs
      else (case split_sp cs of w # ws \<Rightarrow> (c # w) # ws | [] \<Rightarrow> [[c]]))"

subsection \<open>The final readout: lines 215 to 329\<close>

text \<open>
  \<open>sum([readout_values[idx] if idx != None else 0 for idx in idx_list[1:]]) % 2\<close> for one
  plaquette.
\<close>

definition stabilizer_val :: "int list \<Rightarrow> int plaquette \<Rightarrow> error + int" where
  "stabilizer_val readout_values q =
     (case map_err (\<lambda>idx. case idx of None \<Rightarrow> Inr 0 | Some i \<Rightarrow> py_index readout_values i)
             (neighbours q) of
        Inl e \<Rightarrow> Inl e
      | Inr vs \<Rightarrow> Inr (sum_list vs mod 2))"

text \<open>The loop over a family: each value is put in front of the string built so far.\<close>

fun stabilizer_loop :: "int list \<Rightarrow> int plaquette list \<Rightarrow> string \<Rightarrow> error + string" where
  "stabilizer_loop readout_values [] acc = Inr acc"
| "stabilizer_loop readout_values (q # qs) acc =
     (case stabilizer_val readout_values q of
        Inl e \<Rightarrow> Inl e
      | Inr v \<Rightarrow> stabilizer_loop readout_values qs (str_int v @ acc))"

text \<open>The loop of the logical readout over a list of indices.\<close>

fun logical_loop :: "int list \<Rightarrow> int list \<Rightarrow> int \<Rightarrow> error + int" where
  "logical_loop readout_values [] logical_readout = Inr logical_readout"
| "logical_loop readout_values (idx # idxs) logical_readout =
     (case py_index readout_values idx of
        Inl e \<Rightarrow> Inl e
      | Inr v \<Rightarrow> logical_loop readout_values idxs ((logical_readout + v) mod 2))"

definition extract_final_stabilizer_and_logical_readout_x ::
  "params \<Rightarrow> geometry \<Rightarrow> string \<Rightarrow> string \<Rightarrow> error + (int \<times> string)" where
  "extract_final_stabilizer_and_logical_readout_x P g final_readout_string previous_syndrome_string =
     (case map_err int_of_char final_readout_string of
        Inl e \<Rightarrow> Inl e
      | Inr vs \<Rightarrow>
          let readout_values = rev vs in
          (case stabilizer_loop readout_values (mx g) [] of
             Inl e \<Rightarrow> Inl e
           | Inr x_stabilizer \<Rightarrow>
               let stabilizer_str = x_stabilizer @ py_slice_from previous_syndrome_string (num_syn P) in
               (case py_range_step (num_data P) (param_d P) of
                  Inl e \<Rightarrow> Inl e
                | Inr idxs \<Rightarrow>
                    (case logical_loop readout_values idxs 0 of
                       Inl e \<Rightarrow> Inl e
                     | Inr logical_readout \<Rightarrow> Inr (logical_readout, stabilizer_str)))))"

definition extract_final_stabilizer_and_logical_readout_z ::
  "params \<Rightarrow> geometry \<Rightarrow> string \<Rightarrow> string \<Rightarrow> error + (int \<times> string)" where
  "extract_final_stabilizer_and_logical_readout_z P g final_readout_string previous_syndrome_string =
     (case map_err int_of_char final_readout_string of
        Inl e \<Rightarrow> Inl e
      | Inr vs \<Rightarrow>
          let readout_values = rev vs in
          (case stabilizer_loop readout_values (mz g) [] of
             Inl e \<Rightarrow> Inl e
           | Inr z_stabilizer \<Rightarrow>
               let stabilizer_str = py_slice_to previous_syndrome_string (num_syn P) @ z_stabilizer in
               (case logical_loop readout_values (py_range (param_d P)) 0 of
                  Inl e \<Rightarrow> Inl e
                | Inr logical_readout \<Rightarrow> Inr (logical_readout, stabilizer_str))))"

text \<open>The wrapper returns \<open>None\<close> for a readout type that is neither \<open>"X"\<close> nor \<open>"Z"\<close>.\<close>

definition extract_final_stabilizer_and_logical_readout ::
  "params \<Rightarrow> geometry \<Rightarrow> string \<Rightarrow> string \<Rightarrow> string \<Rightarrow> error + (int \<times> string) option" where
  "extract_final_stabilizer_and_logical_readout P g final_readout_string previous_syndrome_string
       readout_type =
     (if readout_type = ''X'' then
        (case extract_final_stabilizer_and_logical_readout_x P g final_readout_string
                previous_syndrome_string of
           Inl e \<Rightarrow> Inl e | Inr r \<Rightarrow> Inr (Some r))
      else if readout_type = ''Z'' then
        (case extract_final_stabilizer_and_logical_readout_z P g final_readout_string
                previous_syndrome_string of
           Inl e \<Rightarrow> Inl e | Inr r \<Rightarrow> Inr (Some r))
      else Inr None)"

text \<open>
  What the claims say the final readout computes, in the claims' words: the bit of a
  plaquette is the sum modulo 2 of the readout values at its present neighbours; a half is
  the bits of a family, last plaquette first; the logical bit is the sum modulo 2 over the
  left-most column (indices \<open>0, d, 2d, ...\<close>) or over the top-most row (indices \<open>0 .. d - 1\<close>).
\<close>

definition spec_plaquette_bit :: "int list \<Rightarrow> int plaquette \<Rightarrow> int" where
  "spec_plaquette_bit readout_values q =
     (\<Sum>k \<leftarrow> List.map_filter id (neighbours q). readout_values ! nat k) mod 2"

definition spec_half :: "int list \<Rightarrow> int plaquette list \<Rightarrow> string" where
  "spec_half readout_values fam =
     rev (map (\<lambda>q. if spec_plaquette_bit readout_values q = 0 then CHR ''0'' else CHR ''1'') fam)"

definition spec_logical_x :: "int \<Rightarrow> int list \<Rightarrow> int" where
  "spec_logical_x dd readout_values = (\<Sum>i \<leftarrow> [0..dd - 1]. readout_values ! nat (i * dd)) mod 2"

definition spec_logical_z :: "int \<Rightarrow> int list \<Rightarrow> int" where
  "spec_logical_z dd readout_values = (\<Sum>i \<leftarrow> [0..dd - 1]. readout_values ! nat i) mod 2"


subsection \<open>The transcript parser: \<open>parse_readout\<close>, lines 391 to 448\<close>

text \<open>
  A coordinate \<open>(time, row, column)\<close>. The floats of the source are sums of \<open>0.5\<close> and small
  integers, which double precision holds exactly; they are modelled as reals.
\<close>

type_synonym TQubit = "real \<times> real \<times> real"

text \<open>
  Lines 423 to 448, from the logical readout and the syndrome chunks on. The masks are
  converted inside the list comprehensions, once per element, so an empty mask raises only
  when there is a pair of rounds to mask; a negative shift count raises.
\<close>

definition decode_syndromes :: "params \<Rightarrow> int \<Rightarrow> string list \<Rightarrow> error + (int \<times> TQubit list \<times> TQubit list)" where
  "decode_syndromes P logical_readout chunks =
     (case map_err int_base2 (rev chunks) of
        Inl e \<Rightarrow> Inl e
      | Inr int_syndromes \<Rightarrow>
          let xor_syndromes = map (\<lambda>(a, b). a XOR b) (zip int_syndromes (tl int_syndromes));
              mask_Z = replicate (nat (num_syn P)) (CHR ''1'');
              mask_X = mask_Z @ replicate (nat (num_syn P)) (CHR ''0'')
          in
          (case map_err (\<lambda>x. case int_base2 mask_X of
                                 Inl e \<Rightarrow> Inl e
                               | Inr m \<Rightarrow> if num_syn P < 0 then Inl ValueError
                                          else Inr (drop_bit (nat (num_syn P)) (x AND m)))
                  xor_syndromes of
             Inl e \<Rightarrow> Inl e
           | Inr X_syndromes \<Rightarrow>
               (case map_err (\<lambda>x. case int_base2 mask_Z of
                                      Inl e \<Rightarrow> Inl e
                                    | Inr m \<Rightarrow> Inr (x AND m))
                       xor_syndromes of
                  Inl e \<Rightarrow> Inl e
                | Inr Z_syndromes \<Rightarrow>
                    Inr (logical_readout,
                         concat (map (\<lambda>(T, syndrome).
                                   map (\<lambda>loc. (real T, - 0.5 + real_of_int loc,
                                                 0.5 + real_of_int (loc mod 2)))
                                     (filter (\<lambda>loc. syndrome AND push_bit (nat loc) 1 \<noteq> 0)
                                        (py_range (num_syn P))))
                                 (enumerate 0 X_syndromes)),
                         concat (map (\<lambda>(T, syndrome).
                                   map (\<lambda>loc. (real T, 0.5 + real_of_int (loc div 2),
                                                 0.5 + real_of_int (loc mod 2) * 2
                                                   - real_of_int (loc div 2)))
                                     (filter (\<lambda>loc. syndrome AND push_bit (nat loc) 1 \<noteq> 0)
                                        (py_range (num_syn P))))
                                 (enumerate 0 Z_syndromes))))))"

text \<open>
  \<open>parse_readout\<close>. With a first chunk longer than one character the final stabilizer is
  extracted first: the assertion needs a readout type, \<open>chunks[1]\<close> needs a second chunk, and
  unpacking the \<open>None\<close> that the wrapper returns for an unknown type raises \<open>TypeError\<close>.
  Otherwise the first chunk has at most one character and \<open>int\<close> reads it.
\<close>

definition parse_readout :: "params \<Rightarrow> geometry \<Rightarrow> string \<Rightarrow> string option \<Rightarrow> error + (int \<times> TQubit list \<times> TQubit list)" where
  "parse_readout P g readout_string readout_type =
     (case split_sp readout_string of
        [] \<Rightarrow> Inl IndexError
      | chunk0 # rest \<Rightarrow>
          if 1 < length chunk0 then
            (case readout_type of
               None \<Rightarrow> Inl AssertionError
             | Some rt \<Rightarrow>
                 (case rest of
                    [] \<Rightarrow> Inl IndexError
                  | chunk1 # _ \<Rightarrow>
                      (case extract_final_stabilizer_and_logical_readout P g chunk0 chunk1 rt of
                         Inl e \<Rightarrow> Inl e
                       | Inr None \<Rightarrow> Inl TypeError
                       | Inr (Some (logical_readout, final_stabilizer)) \<Rightarrow>
                           decode_syndromes P logical_readout (final_stabilizer # rest))))
          else
            (case chunk0 of
               [] \<Rightarrow> Inl ValueError
             | c # _ \<Rightarrow>
                 (case int_of_char c of
                    Inl e \<Rightarrow> Inl e
                  | Inr logical_readout \<Rightarrow> decode_syndromes P logical_readout rest)))"


subsection \<open>The logical qubit: registers, construction and \<open>stabilize\<close>\<close>

text \<open>
  A register is its name and its size. \<open>register[i]\<close> is list indexing: a negative index
  counts from the end, an index out of range raises.
\<close>

type_synonym register = "string \<times> int"

definition reg_index :: "register \<Rightarrow> int \<Rightarrow> error + qubit" where
  "reg_index r i =
     (if 0 \<le> i \<and> i < snd r then Inr (Qubit (fst r) i)
      else if i < 0 \<and> - snd r \<le> i then Inr (Qubit (fst r) (snd r + i))
      else Inl IndexError)"

text \<open>All qubits of a quantum register, and the slice \<open>creg[a:b]\<close> of a classical one.\<close>

definition reg_qubits :: "register \<Rightarrow> qubit list" where
  "reg_qubits r = map (Qubit (fst r)) (py_range (snd r))"

definition slice_bound :: "int \<Rightarrow> int \<Rightarrow> int" where
  "slice_bound len i = (if i < 0 then max (len + i) 0 else min i len)"

definition creg_slice :: "register \<Rightarrow> int \<Rightarrow> int \<Rightarrow> clbit list" where
  "creg_slice r a b =
     map (Clbit (fst r)) [slice_bound (max (snd r) 0) a..slice_bound (max (snd r) 0) b - 1]"

text \<open>The dictionary \<open>qregisters\<close>, with its four keys.\<close>

record qregisters =
  reg_data :: register
  reg_mz :: register
  reg_mx :: register
  reg_ancilla :: register

text \<open>The registers \<open>__init__\<close> creates, lines 103 to 110.\<close>

definition init_qregisters :: "params \<Rightarrow> string \<Rightarrow> qregisters" where
  "init_qregisters P nm =
     \<lparr> reg_data = (nm @ ''_data'', num_data P),
       reg_mz = (nm @ ''_mz'', num_syn P),
       reg_mx = (nm @ ''_mx'', num_syn P),
       reg_ancilla = (nm @ ''_ancilla'', 1) \<rparr>"

datatype stabilizer_cls = XXXX | ZZZZ

text \<open>
  Lines 191 to 197 for one index list: the syndrome qubit is looked up first, then the four
  data qubits in the order of the list, \<open>None\<close> kept as it is.
\<close>

definition data_qubit :: "register \<Rightarrow> int option \<Rightarrow> error + qubit option" where
  "data_qubit r idx =
     (case idx of
        None \<Rightarrow> Inr None
      | Some i \<Rightarrow> (case reg_index r i of Inl e \<Rightarrow> Inl e | Inr a \<Rightarrow> Inr (Some a)))"

definition plaquette_qubits :: "register \<Rightarrow> register \<Rightarrow> int plaquette \<Rightarrow> error + qubit plaquette" where
  "plaquette_qubits syn_reg data_reg idx_list =
     (case reg_index syn_reg (syndrome idx_list) of
        Inl e \<Rightarrow> Inl e
      | Inr syn \<Rightarrow>
          (case map_err (data_qubit data_reg) (neighbours idx_list) of
             Inr [a, b, c, d] \<Rightarrow>
               Inr \<lparr> syndrome = syn, top_l = a, top_r = b, bot_l = c, bot_r = d \<rparr>
           | Inr _ \<Rightarrow> Inl IndexError
           | Inl e \<Rightarrow> Inl e))"

text \<open>
  \<open>gen_qubit_indices_and_stabilizers\<close>: the geometry, then the X family and the Z family in
  the order of the dictionary.
\<close>

definition gen_qubit_indices_and_stabilizers ::
  "params \<Rightarrow> qregisters \<Rightarrow> error + (geometry \<times> qubit plaquette list \<times> stabilizer_cls list)" where
  "gen_qubit_indices_and_stabilizers P qr =
     (case geometry_of P of
        Inl e \<Rightarrow> Inl e
      | Inr g \<Rightarrow>
          (case map_err (plaquette_qubits (reg_mx qr) (reg_data qr)) (mx g) of
             Inl e \<Rightarrow> Inl e
           | Inr xs \<Rightarrow>
               (case map_err (plaquette_qubits (reg_mz qr) (reg_data qr)) (mz g) of
                  Inl e \<Rightarrow> Inl e
                | Inr zs \<Rightarrow>
                    Inr (g, xs @ zs,
                         map (\<lambda>_. XXXX) (mx g) @ map (\<lambda>_. ZZZZ) (mz g)))))"

text \<open>The state of an \<open>XXZZQubit\<close> with its lattice; the circuit is shared by both.\<close>

record tqubit =
  tq_name :: string
  tq_circ :: circuit
  tq_params :: params
  tq_qregisters :: qregisters
  tq_cregisters :: "string \<rightharpoonup> register"
  tq_geometry :: geometry
  tq_qubit_indices :: "qubit plaquette list"
  tq_stabilizers :: "stabilizer_cls list"

text \<open>
  Modelled from the spec: the constructor of the base class \<open>_TopologicalLattice\<close>, which
  \<open>_XXZZLattice.__init__\<close> calls at line 116 and which is not among the sources. By
  section 3 of the spec the geometry is "built once at construction; read-only afterward":
  it stores what it is given and keeps the result of \<open>gen_qubit_indices_and_stabilizers\<close>.
\<close>

definition XXZZQubit_init :: "(string \<rightharpoonup> int) \<Rightarrow> string \<Rightarrow> circuit \<Rightarrow> error + tqubit" where
  "XXZZQubit_init ps nm c =
     (case init_params ps of
        Inl e \<Rightarrow> Inl e
      | Inr P \<Rightarrow>
          (case gen_qubit_indices_and_stabilizers P (init_qregisters P nm) of
             Inl e \<Rightarrow> Inl e
           | Inr (g, qis, stabs) \<Rightarrow>
               Inr \<lparr> tq_name = nm, tq_circ = c, tq_params = P,
                     tq_qregisters = init_qregisters P nm, tq_cregisters = Map.empty,
                     tq_geometry = g, tq_qubit_indices = qis, tq_stabilizers = stabs \<rparr>))"

text \<open>
  Modelled from the spec: \<open>_TopologicalLattice.entangle\<close>, called at line 498 with no
  argument and not among the sources. By section 4.3 of the spec it "applies every
  plaquette's protocol across both families": the protocol of each stored stabilizer class
  on its stored plaquette, in order.
\<close>

definition stabilizer_entangle :: "qubit plaquette \<times> stabilizer_cls \<Rightarrow> circuit proc" where
  "stabilizer_entangle qc =
     (case snd qc of XXXX \<Rightarrow> XXXX_entangle (fst qc) | ZZZZ \<Rightarrow> ZZZZ_entangle (fst qc))"

definition lattice_entangle :: "qubit plaquette list \<Rightarrow> stabilizer_cls list \<Rightarrow> circuit proc" where
  "lattice_entangle qis stabs = run (map stabilizer_entangle (zip qis stabs))"

text \<open>A method of the circuit, run on the circuit of the qubit.\<close>

definition on_circ :: "circuit proc \<Rightarrow> tqubit proc" where
  "on_circ f q = (case f (tq_circ q) of (r, c) \<Rightarrow> (r, q\<lparr> tq_circ := c \<rparr>))"

definition add_register :: "register \<Rightarrow> circuit proc" where
  "add_register r c = (None, c\<lparr> cregs := cregs c @ [r] \<rparr>)"

text \<open>
  \<open>XXZZQubit.stabilize\<close>, lines 488 to 513. The new register is named after the counter as
  it is after the increment.
\<close>

definition stabilize :: "tqubit proc" where
  "stabilize q =
     (let q1 = q\<lparr> tq_params := (tq_params q)\<lparr> param_T := param_T (tq_params q) + 1 \<rparr> \<rparr>;
          n = num_syn (tq_params q1);
          syndrome_readouts = (tq_name q1 @ ''_c'' @ str_int (param_T (tq_params q1)), n * 2);
          q2 = q1\<lparr> tq_cregisters :=
                     (tq_cregisters q1)(''syndrome'' @ str_int (param_T (tq_params q1))
                                          \<mapsto> syndrome_readouts) \<rparr>
      in run
           [on_circ (add_register syndrome_readouts),
            on_circ (lattice_entangle (tq_qubit_indices q2) (tq_stabilizers q2)),
            on_circ (emit (Measure (reg_qubits (reg_mz (tq_qregisters q2)))
                                   (creg_slice syndrome_readouts 0 n))),
            on_circ (emit (Measure (reg_qubits (reg_mx (tq_qregisters q2)))
                                   (creg_slice syndrome_readouts n (n * 2)))),
            on_circ (emit (Reset (reg_qubits (reg_mz (tq_qregisters q2))))),
            on_circ (emit (Reset (reg_qubits (reg_mx (tq_qregisters q2))))),
            on_circ (emit Barrier)]
           q2)"

text \<open>
  What claim C3 says a round applies, in the claim's words: the protocol of every plaquette
  record, on the qubits its indices name in the registers of a qubit called \<open>nm\<close>.
\<close>

definition spec_x_protocol :: "string \<Rightarrow> int plaquette \<Rightarrow> instruction list" where
  "spec_x_protocol nm r =
     [Hadamard (Qubit (nm @ ''_mx'') (syndrome r))]
     @ (case (top_r r, top_l r) of
          (Some a, Some b) \<Rightarrow> [CNOT (Qubit (nm @ ''_mx'') (syndrome r)) (Qubit (nm @ ''_data'') a),
                               CNOT (Qubit (nm @ ''_mx'') (syndrome r)) (Qubit (nm @ ''_data'') b)]
        | _ \<Rightarrow> [])
     @ (case (bot_r r, bot_l r) of
          (Some a, Some b) \<Rightarrow> [CNOT (Qubit (nm @ ''_mx'') (syndrome r)) (Qubit (nm @ ''_data'') a),
                               CNOT (Qubit (nm @ ''_mx'') (syndrome r)) (Qubit (nm @ ''_data'') b)]
        | _ \<Rightarrow> [])
     @ [Hadamard (Qubit (nm @ ''_mx'') (syndrome r))]"

definition spec_z_protocol :: "string \<Rightarrow> int plaquette \<Rightarrow> instruction list" where
  "spec_z_protocol nm r =
     (case (top_r r, bot_r r) of
        (Some a, Some b) \<Rightarrow> [CNOT (Qubit (nm @ ''_data'') a) (Qubit (nm @ ''_mz'') (syndrome r)),
                             CNOT (Qubit (nm @ ''_data'') b) (Qubit (nm @ ''_mz'') (syndrome r))]
      | _ \<Rightarrow> [])
     @ (case (top_l r, bot_l r) of
          (Some a, Some b) \<Rightarrow> [CNOT (Qubit (nm @ ''_data'') a) (Qubit (nm @ ''_mz'') (syndrome r)),
                               CNOT (Qubit (nm @ ''_data'') b) (Qubit (nm @ ''_mz'') (syndrome r))]
        | _ \<Rightarrow> [])"

text \<open>
  A plaquette record with its indices replaced by the qubits they name in a syndrome
  register and a data register: what \<open>gen_qubit_indices_and_stabilizers\<close> stores when every
  index is in range.
\<close>

definition to_qubits :: "string \<Rightarrow> string \<Rightarrow> int plaquette \<Rightarrow> qubit plaquette" where
  "to_qubits sn dn r =
     \<lparr> syndrome = Qubit sn (syndrome r),
       top_l = map_option (Qubit dn) (top_l r), top_r = map_option (Qubit dn) (top_r r),
       bot_l = map_option (Qubit dn) (bot_l r), bot_r = map_option (Qubit dn) (bot_r r) \<rparr>"


section \<open>Arithmetic of the layout\<close>

lemma odd_distance_cases:
  fixes dd :: int
  assumes "dd mod 2 = 1" "1 \<le> dd"
  obtains p where "0 \<le> p" "dd = 2 * p + 1"
proof -
  have "dd = 2 * (dd div 2) + 1" using assms(1) by presburger
  moreover have "0 \<le> dd div 2" using assms(2) by simp
  ultimately show ?thesis using that by blast
qed

lemma num_syn_odd:
  fixes p :: int
  shows "((2 * p + 1) ^ 2 - 1) div 2 = 2 * p * (p + 1)"
proof -
  have "(2 * p + 1) ^ 2 - 1 = 2 * (2 * p * (p + 1))" by (simp add: power2_eq_square algebra_simps)
  then show ?thesis by simp
qed

lemma set_py_range: "set (py_range n) = {0..<n}"
  by (auto simp: py_range_def)

text \<open>Row and offset of a syndrome index, for a positive number per row.\<close>

lemma row_offset:
  fixes s per :: int
  assumes "0 < per" "0 \<le> s" "s < rows * per"
  shows "0 \<le> s div per" "s div per < rows" "0 \<le> s mod per" "s mod per < per"
    "s = (s div per) * per + s mod per"
proof -
  show "0 \<le> s div per" using assms by (simp add: pos_imp_zdiv_nonneg_iff)
  show "0 \<le> s mod per" "s mod per < per" using assms by simp_all
  show e: "s = (s div per) * per + s mod per" by simp
  show "s div per < rows"
  proof (rule ccontr)
    assume "\<not> s div per < rows"
    then have "rows \<le> s div per" by simp
    then have "rows * per \<le> (s div per) * per" using assms(1) by (simp add: mult_right_mono)
    also have "\<dots> \<le> s" using e \<open>0 \<le> s mod per\<close> by linarith
    finally show False using assms(3) by simp
  qed
qed

lemma mx_plaquette_first:
  "s div per_row_x dd = 0 \<Longrightarrow>
   mx_plaquette dd s = \<lparr> syndrome = s, top_l = None, top_r = None,
             bot_l = Some (s * 2), bot_r = Some (s * 2 + 1) \<rparr>"
  by (simp add: mx_plaquette_def Let_def)

lemma mx_plaquette_last:
  "s div per_row_x dd \<noteq> 0 \<Longrightarrow> s div per_row_x dd = dd \<Longrightarrow>
   mx_plaquette dd s = \<lparr> syndrome = s, top_l = Some (s * 2 + 1), top_r = Some (s * 2 + 2),
             bot_l = None, bot_r = None \<rparr>"
  by (simp add: mx_plaquette_def Let_def)

lemma mx_plaquette_inner:
  "s div per_row_x dd \<noteq> 0 \<Longrightarrow> s div per_row_x dd \<noteq> dd \<Longrightarrow>
   mx_plaquette dd s =
     \<lparr> syndrome = s,
       top_l = Some ((s div per_row_x dd - 1) * dd + (s mod per_row_x dd) * 2
                       + (s div per_row_x dd) mod 2),
       top_r = Some ((s div per_row_x dd - 1) * dd + (s mod per_row_x dd) * 2
                       + (s div per_row_x dd) mod 2 + 1),
       bot_l = Some ((s div per_row_x dd - 1) * dd + dd + (s mod per_row_x dd) * 2
                       + (s div per_row_x dd) mod 2),
       bot_r = Some ((s div per_row_x dd - 1) * dd + dd + (s mod per_row_x dd) * 2
                       + (s div per_row_x dd) mod 2 + 1) \<rparr>"
  by (simp add: mx_plaquette_def Let_def)

lemma per_row_x_odd: "per_row_x (2 * p + 1) = p"
  by (simp add: per_row_x_def)

lemma per_row_z_odd: "per_row_z (2 * p + 1) = p + 1"
  by (simp add: per_row_z_def)

lemma mz_plaquette_last_col:
  "mz_row dd s mod 2 = 0 \<Longrightarrow> mz_offset dd s = per_row_z dd - 1 \<Longrightarrow>
   mz_plaquette dd s =
     \<lparr> syndrome = s,
       top_l = Some (mz_row dd s * dd + (mz_offset dd s) * 2 - mz_row dd s mod 2),
       top_r = None,
       bot_l = Some (mz_row dd s * dd + dd + (mz_offset dd s) * 2 - mz_row dd s mod 2),
       bot_r = None \<rparr>"
  by (simp add: mz_plaquette_def Let_def)

lemma mz_plaquette_first_col:
  "mz_row dd s mod 2 = 1 \<Longrightarrow> mz_offset dd s = 0 \<Longrightarrow>
   mz_plaquette dd s =
     \<lparr> syndrome = s,
       top_l = None,
       top_r = Some (mz_row dd s * dd + (mz_offset dd s) * 2 - mz_row dd s mod 2 + 1),
       bot_l = None,
       bot_r = Some (mz_row dd s * dd + dd + (mz_offset dd s) * 2 - mz_row dd s mod 2 + 1) \<rparr>"
  by (simp add: mz_plaquette_def Let_def)

lemma mz_plaquette_inner:
  "\<not> (mz_row dd s mod 2 = 0 \<and> mz_offset dd s = per_row_z dd - 1) \<Longrightarrow>
   \<not> (mz_row dd s mod 2 = 1 \<and> mz_offset dd s = 0) \<Longrightarrow>
   mz_plaquette dd s =
     \<lparr> syndrome = s,
       top_l = Some (mz_row dd s * dd + (mz_offset dd s) * 2 - mz_row dd s mod 2),
       top_r = Some (mz_row dd s * dd + (mz_offset dd s) * 2 - mz_row dd s mod 2 + 1),
       bot_l = Some (mz_row dd s * dd + dd + (mz_offset dd s) * 2 - mz_row dd s mod 2),
       bot_r = Some (mz_row dd s * dd + dd + (mz_offset dd s) * 2 - mz_row dd s mod 2 + 1) \<rparr>"
  by (simp add: mz_plaquette_def Let_def)


lemma split_index:
  fixes a c dd k :: int
  assumes "k = a * dd + c" "0 \<le> c" "c < dd"
  shows "k div dd = a" "k mod dd = c"
proof -
  have e: "k = dd * a + c" using assms(1) by (simp add: mult.commute)
  show "k div dd = a" by (rule int_div_pos_eq[OF e assms(2,3)])
  show "k mod dd = c" by (rule int_mod_pos_eq[OF e assms(2,3)])
qed

lemma mx_neighbour_form:
  fixes p s k :: int
  assumes p: "1 \<le> p" and s: "0 \<le> s" "s < 2 * p * (p + 1)"
    and k: "Some k \<in> set (neighbours (mx_plaquette (2 * p + 1) s))"
  shows "(s div p = k div (2 * p + 1) \<or> s div p = k div (2 * p + 1) + 1) \<and>
         (k mod (2 * p + 1) = 2 * (s mod p) + (s div p) mod 2 \<or>
          k mod (2 * p + 1) = 2 * (s mod p) + (s div p) mod 2 + 1) \<and>
         0 \<le> k div (2 * p + 1) \<and> k div (2 * p + 1) \<le> 2 * p"
proof -
  define r where "r = s div p"
  define f where "f = s mod p"
  have "s < (2 * p + 2) * p" using s by (simp add: algebra_simps)
  from row_offset[OF _ s(1) this] p
  have r: "0 \<le> r" "r < 2 * p + 2" and f: "0 \<le> f" "f < p" and e: "s = r * p + f"
    by (simp_all add: r_def f_def)
  have par: "0 \<le> r mod 2" "r mod 2 \<le> 1" by simp_all
  have rx: "s div per_row_x (2 * p + 1) = r" "s mod per_row_x (2 * p + 1) = f"
    by (simp_all add: per_row_x_odd r_def f_def)
  have I: "\<exists>a c. k = a * (2 * p + 1) + c \<and> (r = a \<or> r = a + 1) \<and> 0 \<le> a \<and> a \<le> 2 * p \<and>
           (c = 2 * f + r mod 2 \<or> c = 2 * f + r mod 2 + 1)"
    if "k = a * (2 * p + 1) + (2 * f + r mod 2 + e)" "e = 0 \<or> e = 1" "r = a \<or> r = a + 1"
       "0 \<le> a" "a \<le> 2 * p" for a e
    using that by (intro exI[of _ a] exI[of _ "2 * f + r mod 2 + e"]) auto
  have "\<exists>a c. k = a * (2 * p + 1) + c \<and> (r = a \<or> r = a + 1) \<and> 0 \<le> a \<and> a \<le> 2 * p \<and>
           (c = 2 * f + r mod 2 \<or> c = 2 * f + r mod 2 + 1)"
  proof -
    consider "r = 0" | "r = 2 * p + 1" | "1 \<le> r" "r \<le> 2 * p" using r by linarith
    then show ?thesis
    proof cases
      case 1
      then have sf: "s = f" using e by simp
      from 1 k have "k = s * 2 \<or> k = s * 2 + 1"
        by (auto simp: mx_plaquette_first rx neighbours_def)
      then show ?thesis
      proof
        assume "k = s * 2"
        then show ?thesis using sf 1 p by (intro I[of 0 0]) simp_all
      next
        assume "k = s * 2 + 1"
        then show ?thesis using sf 1 p by (intro I[of 0 1]) simp_all
      qed
    next
      case 2
      then have sf: "s = (2 * p + 1) * p + f" using e by simp
      have m: "r mod 2 = 1" using 2 by presburger
      from 2 p have "r \<noteq> 0" by simp
      with 2 k have "k = s * 2 + 1 \<or> k = s * 2 + 2"
        by (auto simp: mx_plaquette_last rx neighbours_def)
      then show ?thesis
      proof
        assume "k = s * 2 + 1"
        then show ?thesis using 2 p unfolding sf
          by (intro I[of "2 * p" 0]) (simp_all add: m algebra_simps)
      next
        assume "k = s * 2 + 2"
        then show ?thesis using 2 p unfolding sf
          by (intro I[of "2 * p" 1]) (simp_all add: m algebra_simps)
      qed
    next
      case 3
      from 3 have "r \<noteq> 0" "r \<noteq> 2 * p + 1" by simp_all
      with k have "k = (r - 1) * (2 * p + 1) + f * 2 + r mod 2 \<or>
                 k =  (r - 1) * (2 * p + 1) + f * 2 + r mod 2 + 1 \<or>
                 k = (r - 1) * (2 * p + 1) + (2 * p + 1) + f * 2 + r mod 2 \<or>
                 k = (r - 1) * (2 * p + 1) + (2 * p + 1) + f * 2 + r mod 2 + 1"
        by (auto simp: mx_plaquette_inner rx neighbours_def)
      then show ?thesis
      proof (elim disjE)
        assume "k = (r - 1) * (2 * p + 1) + f * 2 + r mod 2"
        then show ?thesis using 3 by (intro I[of "r - 1" 0]) simp_all
      next
        assume "k = (r - 1) * (2 * p + 1) + f * 2 + r mod 2 + 1"
        then show ?thesis using 3 by (intro I[of "r - 1" 1]) simp_all
      next
        assume "k = (r - 1) * (2 * p + 1) + (2 * p + 1) + f * 2 + r mod 2"
        then show ?thesis using 3 by (intro I[of r 0]) (simp_all add: algebra_simps)
      next
        assume "k = (r - 1) * (2 * p + 1) + (2 * p + 1) + f * 2 + r mod 2 + 1"
        then show ?thesis using 3 by (intro I[of r 1]) (simp_all add: algebra_simps)
      qed
    qed
  qed
  then obtain a c where ac: "k = a * (2 * p + 1) + c" "r = a \<or> r = a + 1" "0 \<le> a" "a \<le> 2 * p"
      "c = 2 * f + r mod 2 \<or> c = 2 * f + r mod 2 + 1" by blast
  have c: "0 \<le> c" "c < 2 * p + 1" using ac(5) f par by auto
  have "k div (2 * p + 1) = a" "k mod (2 * p + 1) = c"
    using split_index[OF ac(1) c] by simp_all
  then show ?thesis using ac unfolding r_def f_def by simp
qed


lemma mz_neighbour_form:
  fixes p s k :: int
  assumes p: "1 \<le> p" and s: "0 \<le> s" "s < 2 * p * (p + 1)"
    and k: "Some k \<in> set (neighbours (mz_plaquette (2 * p + 1) s))"
  shows "(s div (p + 1) = k div (2 * p + 1) \<or> s div (p + 1) = k div (2 * p + 1) - 1) \<and>
         (k mod (2 * p + 1) = 2 * (s mod (p + 1)) - (s div (p + 1)) mod 2 \<or>
          k mod (2 * p + 1) = 2 * (s mod (p + 1)) - (s div (p + 1)) mod 2 + 1) \<and>
         0 \<le> k div (2 * p + 1) \<and> k div (2 * p + 1) \<le> 2 * p"
proof -
  define r where "r = s div (p + 1)"
  define f where "f = s mod (p + 1)"
  have "s < (2 * p) * (p + 1)" using s by (simp add: algebra_simps)
  from row_offset[OF _ s(1) this] p
  have r: "0 \<le> r" "r < 2 * p" and f: "0 \<le> f" "f < p + 1"
    by (simp_all add: r_def f_def)
  have rz: "mz_row (2 * p + 1) s = r" "mz_offset (2 * p + 1) s = f"
    by (simp_all add: mz_row_def mz_offset_def per_row_z_odd r_def f_def)
  have I: "\<exists>a c. k = a * (2 * p + 1) + c \<and> (r = a \<or> r = a - 1) \<and> 0 \<le> a \<and> a \<le> 2 * p \<and>
           (c = 2 * f - r mod 2 \<or> c = 2 * f - r mod 2 + 1) \<and> 0 \<le> c \<and> c < 2 * p + 1"
    if "k = a * (2 * p + 1) + (2 * f - r mod 2 + e)" "e = 0 \<or> e = 1" "r = a \<or> r = a - 1"
       "0 \<le> 2 * f - r mod 2 + e" "2 * f - r mod 2 + e \<le> 2 * p" for a e
    using that r by (intro exI[of _ a] exI[of _ "2 * f - r mod 2 + e"]) auto
  have "\<exists>a c. k = a * (2 * p + 1) + c \<and> (r = a \<or> r = a - 1) \<and> 0 \<le> a \<and> a \<le> 2 * p \<and>
           (c = 2 * f - r mod 2 \<or> c = 2 * f - r mod 2 + 1) \<and> 0 \<le> c \<and> c < 2 * p + 1"
  proof -
    consider "r mod 2 = 0" "f = p" | "r mod 2 = 1" "f = 0"
      | "r mod 2 = 0" "f < p" | "r mod 2 = 1" "1 \<le> f"
      using f by (cases "r mod 2 = 0") (linarith | presburger)+
    then show ?thesis
    proof cases
      case 1
      with k have "k = r * (2 * p + 1) + f * 2 - r mod 2 \<or>
          k = r * (2 * p + 1) + (2 * p + 1) + f * 2 - r mod 2"
        by (auto simp: mz_plaquette_last_col rz per_row_z_odd neighbours_def)
      then show ?thesis
      proof
        assume "k = r * (2 * p + 1) + f * 2 - r mod 2"
        then show ?thesis using 1 f by (intro I[of r 0]) simp_all
      next
        assume "k = r * (2 * p + 1) + (2 * p + 1) + f * 2 - r mod 2"
        then show ?thesis using 1 f by (intro I[of "r + 1" 0]) (simp_all add: algebra_simps)
      qed
    next
      case 2
      with k have "k = r * (2 * p + 1) + f * 2 - r mod 2 + 1 \<or>
          k = r * (2 * p + 1) + (2 * p + 1) + f * 2 - r mod 2 + 1"
        by (auto simp: mz_plaquette_first_col rz per_row_z_odd neighbours_def)
      then show ?thesis
      proof
        assume "k = r * (2 * p + 1) + f * 2 - r mod 2 + 1"
        then show ?thesis using 2 f p by (intro I[of r 1]) simp_all
      next
        assume "k = r * (2 * p + 1) + (2 * p + 1) + f * 2 - r mod 2 + 1"
        then show ?thesis using 2 f p by (intro I[of "r + 1" 1]) (simp_all add: algebra_simps)
      qed
    next
      case 3
      then have "\<not> (r mod 2 = 0 \<and> f = p + 1 - 1)" "\<not> (r mod 2 = 1 \<and> f = 0)" by simp_all
      with k have "k = r * (2 * p + 1) + f * 2 - r mod 2 \<or>
          k = r * (2 * p + 1) + f * 2 - r mod 2 + 1 \<or>
          k = r * (2 * p + 1) + (2 * p + 1) + f * 2 - r mod 2 \<or>
          k = r * (2 * p + 1) + (2 * p + 1) + f * 2 - r mod 2 + 1"
        by (auto simp: mz_plaquette_inner rz per_row_z_odd neighbours_def)
      then show ?thesis
      proof (elim disjE)
        assume "k = r * (2 * p + 1) + f * 2 - r mod 2"
        then show ?thesis using 3 f by (intro I[of r 0]) simp_all
      next
        assume "k = r * (2 * p + 1) + f * 2 - r mod 2 + 1"
        then show ?thesis using 3 f by (intro I[of r 1]) simp_all
      next
        assume "k = r * (2 * p + 1) + (2 * p + 1) + f * 2 - r mod 2"
        then show ?thesis using 3 f by (intro I[of "r + 1" 0]) (simp_all add: algebra_simps)
      next
        assume "k = r * (2 * p + 1) + (2 * p + 1) + f * 2 - r mod 2 + 1"
        then show ?thesis using 3 f by (intro I[of "r + 1" 1]) (simp_all add: algebra_simps)
      qed
    next
      case 4
      then have "\<not> (r mod 2 = 0 \<and> f = p + 1 - 1)" "\<not> (r mod 2 = 1 \<and> f = 0)" by simp_all
      with k have "k = r * (2 * p + 1) + f * 2 - r mod 2 \<or>
          k = r * (2 * p + 1) + f * 2 - r mod 2 + 1 \<or>
          k = r * (2 * p + 1) + (2 * p + 1) + f * 2 - r mod 2 \<or>
          k = r * (2 * p + 1) + (2 * p + 1) + f * 2 - r mod 2 + 1"
        by (auto simp: mz_plaquette_inner rz per_row_z_odd neighbours_def)
      then show ?thesis
      proof (elim disjE)
        assume "k = r * (2 * p + 1) + f * 2 - r mod 2"
        then show ?thesis using 4 f by (intro I[of r 0]) simp_all
      next
        assume "k = r * (2 * p + 1) + f * 2 - r mod 2 + 1"
        then show ?thesis using 4 f by (intro I[of r 1]) simp_all
      next
        assume "k = r * (2 * p + 1) + (2 * p + 1) + f * 2 - r mod 2"
        then show ?thesis using 4 f by (intro I[of "r + 1" 0]) (simp_all add: algebra_simps)
      next
        assume "k = r * (2 * p + 1) + (2 * p + 1) + f * 2 - r mod 2 + 1"
        then show ?thesis using 4 f by (intro I[of "r + 1" 1]) (simp_all add: algebra_simps)
      qed
    qed
  qed
  then obtain a c where ac: "k = a * (2 * p + 1) + c" "r = a \<or> r = a - 1" "0 \<le> a" "a \<le> 2 * p"
      "c = 2 * f - r mod 2 \<or> c = 2 * f - r mod 2 + 1" "0 \<le> c" "c < 2 * p + 1" by blast
  have "k div (2 * p + 1) = a" "k mod (2 * p + 1) = c"
    using split_index[OF ac(1) ac(6,7)] by simp_all
  then show ?thesis using ac unfolding r_def f_def by simp
qed

lemma index_in_range:
  fixes p k :: int
  assumes "0 \<le> k div (2 * p + 1)" "k div (2 * p + 1) \<le> 2 * p" "1 \<le> p"
  shows "0 \<le> k \<and> k < (2 * p + 1) ^ 2"
proof -
  define a where "a = k div (2 * p + 1)"
  define c where "c = k mod (2 * p + 1)"
  have "0 < 2 * p + 1" using assms(3) by simp
  then have c: "0 \<le> c" "c < 2 * p + 1"
    unfolding c_def by (rule pos_mod_sign, rule pos_mod_bound)
  have e: "k = a * (2 * p + 1) + c" unfolding a_def c_def by (rule div_mult_mod_eq[symmetric])
  have a: "0 \<le> a" "a \<le> 2 * p" using assms by (simp_all add: a_def)
  have lo: "0 \<le> a * (2 * p + 1)" using a assms(3) by simp
  have "a * (2 * p + 1) \<le> (2 * p) * (2 * p + 1)"
    using a assms(3) by (intro mult_right_mono) simp_all
  then have up: "a * (2 * p + 1) + (2 * p + 1) \<le> (2 * p + 1) ^ 2"
    by (simp add: power2_eq_square algebra_simps)
  show ?thesis using e c lo up by linarith
qed

lemma mx_syn_candidates:
  fixes p s k :: int
  assumes p: "1 \<le> p" and s: "0 \<le> s" "s < 2 * p * (p + 1)"
    and k: "Some k \<in> set (neighbours (mx_plaquette (2 * p + 1) s))"
  shows "s = sx p k (s div p)"
proof -
  from mx_neighbour_form[OF assms]
  have "k mod (2 * p + 1) = 2 * (s mod p) + (s div p) mod 2 \<or>
        k mod (2 * p + 1) = 2 * (s mod p) + (s div p) mod 2 + 1" by simp
  then have h: "(k mod (2 * p + 1) - (s div p) mod 2) div 2 = s mod p" by auto
  show ?thesis unfolding sx_def h by (rule div_mult_mod_eq[symmetric])
qed

lemma mz_syn_candidates:
  fixes p s k :: int
  assumes p: "1 \<le> p" and s: "0 \<le> s" "s < 2 * p * (p + 1)"
    and k: "Some k \<in> set (neighbours (mz_plaquette (2 * p + 1) s))"
  shows "s = sz p k (s div (p + 1))"
proof -
  from mz_neighbour_form[OF assms]
  have "k mod (2 * p + 1) = 2 * (s mod (p + 1)) - (s div (p + 1)) mod 2 \<or>
        k mod (2 * p + 1) = 2 * (s mod (p + 1)) - (s div (p + 1)) mod 2 + 1" by simp
  then have h: "(k mod (2 * p + 1) + (s div (p + 1)) mod 2) div 2 = s mod (p + 1)" by auto
  show ?thesis unfolding sz_def h by (rule div_mult_mod_eq[symmetric])
qed

lemma occurrences_le_card:
  assumes "distinct xs" "finite A"
    and "\<And>s. s \<in> set xs \<Longrightarrow> Some k \<in> set (neighbours (F s)) \<Longrightarrow> s \<in> A"
  shows "occurrences (map F xs) k \<le> card A"
proof -
  have "occurrences (map F xs) k = length (filter (\<lambda>s. Some k \<in> set (neighbours (F s))) xs)"
    by (simp add: occurrences_def filter_map comp_def)
  also have "\<dots> = card ({s. Some k \<in> set (neighbours (F s))} \<inter> set xs)"
    by (rule distinct_length_filter[OF assms(1)])
  also have "\<dots> \<le> card A"
    using assms(3) by (intro card_mono[OF assms(2)]) auto
  finally show ?thesis .
qed

lemma distinct_py_range: "distinct (py_range n)"
  by (simp add: py_range_def)

lemma mx_occurrences_le2:
  fixes p :: int
  assumes "1 \<le> p"
  shows "occurrences (map (mx_plaquette (2 * p + 1)) (py_range (2 * p * (p + 1)))) k \<le> 2"
proof -
  let ?A = "{sx p k (k div (2 * p + 1)), sx p k (k div (2 * p + 1) + 1)}"
  have "occurrences (map (mx_plaquette (2 * p + 1)) (py_range (2 * p * (p + 1)))) k \<le> card ?A"
  proof (rule occurrences_le_card[OF distinct_py_range])
    show "finite ?A" by simp
    fix s assume s: "s \<in> set (py_range (2 * p * (p + 1)))"
      and k: "Some k \<in> set (neighbours (mx_plaquette (2 * p + 1) s))"
    from s have r: "0 \<le> s" "s < 2 * p * (p + 1)" by (simp_all add: set_py_range)
    from mx_neighbour_form[OF assms r k]
    have "s div p = k div (2 * p + 1) \<or> s div p = k div (2 * p + 1) + 1" by simp
    with mx_syn_candidates[OF assms r k] show "s \<in> ?A" by auto
  qed
  also have "card ?A \<le> 2" by (simp add: card_insert_if)
  finally show ?thesis .
qed

lemma mz_occurrences_le2:
  fixes p :: int
  assumes "1 \<le> p"
  shows "occurrences (map (mz_plaquette (2 * p + 1)) (py_range (2 * p * (p + 1)))) k \<le> 2"
proof -
  let ?A = "{sz p k (k div (2 * p + 1)), sz p k (k div (2 * p + 1) - 1)}"
  have "occurrences (map (mz_plaquette (2 * p + 1)) (py_range (2 * p * (p + 1)))) k \<le> card ?A"
  proof (rule occurrences_le_card[OF distinct_py_range])
    show "finite ?A" by simp
    fix s assume s: "s \<in> set (py_range (2 * p * (p + 1)))"
      and k: "Some k \<in> set (neighbours (mz_plaquette (2 * p + 1) s))"
    from s have r: "0 \<le> s" "s < 2 * p * (p + 1)" by (simp_all add: set_py_range)
    from mz_neighbour_form[OF assms r k]
    have "s div (p + 1) = k div (2 * p + 1) \<or> s div (p + 1) = k div (2 * p + 1) - 1" by simp
    with mz_syn_candidates[OF assms r k] show "s \<in> ?A" by auto
  qed
  also have "card ?A \<le> 2" by (simp add: card_insert_if)
  finally show ?thesis .
qed

text \<open>The four corners of the grid, as quotient and remainder by the distance.\<close>

lemma corner_split:
  fixes p :: int
  assumes "1 \<le> p"
  shows "(0::int) div (2 * p + 1) = 0" "(0::int) mod (2 * p + 1) = 0"
    "(2 * p + 1 - 1) div (2 * p + 1) = 0" "(2 * p + 1 - 1) mod (2 * p + 1) = 2 * p"
    "((2 * p + 1) ^ 2 - (2 * p + 1)) div (2 * p + 1) = 2 * p"
    "((2 * p + 1) ^ 2 - (2 * p + 1)) mod (2 * p + 1) = 0"
    "((2 * p + 1) ^ 2 - 1) div (2 * p + 1) = 2 * p"
    "((2 * p + 1) ^ 2 - 1) mod (2 * p + 1) = 2 * p"
proof -
  show "(0::int) div (2 * p + 1) = 0" "(0::int) mod (2 * p + 1) = 0" by simp_all
  have a: "2 * p + 1 - 1 = 0 * (2 * p + 1) + 2 * p" by simp
  show "(2 * p + 1 - 1) div (2 * p + 1) = 0" "(2 * p + 1 - 1) mod (2 * p + 1) = 2 * p"
    using split_index[OF a] assms by simp_all
  have b: "(2 * p + 1) ^ 2 - (2 * p + 1) = (2 * p) * (2 * p + 1) + 0"
    by (simp add: power2_eq_square algebra_simps)
  show "((2 * p + 1) ^ 2 - (2 * p + 1)) div (2 * p + 1) = 2 * p"
    "((2 * p + 1) ^ 2 - (2 * p + 1)) mod (2 * p + 1) = 0"
    using split_index[OF b] assms by simp_all
  have c: "(2 * p + 1) ^ 2 - 1 = (2 * p) * (2 * p + 1) + 2 * p"
    by (simp add: power2_eq_square algebra_simps)
  show "((2 * p + 1) ^ 2 - 1) div (2 * p + 1) = 2 * p"
    "((2 * p + 1) ^ 2 - 1) mod (2 * p + 1) = 2 * p"
    using split_index[OF c] assms by simp_all
qed

lemma corners_distinct:
  fixes p :: int
  assumes p: "1 \<le> p"
  shows "(2 * p + 1) ^ 2 - (2 * p + 1) \<noteq> 0" "(2 * p + 1) ^ 2 - (2 * p + 1) \<noteq> 2 * p + 1 - 1"
      "(2 * p + 1) ^ 2 - 1 \<noteq> 0" "(2 * p + 1) ^ 2 - 1 \<noteq> 2 * p + 1 - 1"
      "(2 * p + 1) ^ 2 - 1 \<noteq> (2 * p + 1) ^ 2 - (2 * p + 1)" "2 * p + 1 - 1 \<noteq> 0"
proof -
  have pp: "1 \<le> p * p" using mult_mono[of 1 p 1 p] p by simp
  have sq: "(2 * p + 1) ^ 2 = 4 * (p * p) + 4 * p + 1"
    by (simp add: power2_eq_square algebra_simps)
  show "(2 * p + 1) ^ 2 - (2 * p + 1) \<noteq> 0" "(2 * p + 1) ^ 2 - (2 * p + 1) \<noteq> 2 * p + 1 - 1"
      "(2 * p + 1) ^ 2 - 1 \<noteq> 0" "(2 * p + 1) ^ 2 - 1 \<noteq> 2 * p + 1 - 1"
      "(2 * p + 1) ^ 2 - 1 \<noteq> (2 * p + 1) ^ 2 - (2 * p + 1)" "2 * p + 1 - 1 \<noteq> 0"
    unfolding sq using p pp by linarith+
qed

lemma mx_corner_row:
  fixes p s k :: int
  assumes p: "1 \<le> p" and s: "0 \<le> s" "s < 2 * p * (p + 1)"
    and k: "Some k \<in> set (neighbours (mx_plaquette (2 * p + 1) s))"
    and c: "k \<in> {0, 2 * p + 1 - 1, (2 * p + 1) ^ 2 - (2 * p + 1), (2 * p + 1) ^ 2 - 1}"
  shows "s div p = corner_row_x p k"
proof -
  define r where "r = s div p"
  define f where "f = s mod p"
  define m where "m = r mod 2"
  have "s < (2 * p + 2) * p" using s by (simp add: algebra_simps)
  from row_offset[OF _ s(1) this] p
  have f: "0 \<le> f" "f < p" by (simp_all add: f_def)
  have m: "m = 0 \<or> m = 1" unfolding m_def by presburger
  have rm: "r = 0 \<Longrightarrow> m = 0" "r = 1 \<Longrightarrow> m = 1" "r = 2 * p \<Longrightarrow> m = 0" "r = 2 * p + 1 \<Longrightarrow> m = 1"
    unfolding m_def by presburger+
  note F = mx_neighbour_form[OF p s k, folded r_def f_def, folded m_def]
  note ne = corners_distinct[OF p]
  from c consider "k = 0" | "k = 2 * p + 1 - 1" | "k = (2 * p + 1) ^ 2 - (2 * p + 1)"
    | "k = (2 * p + 1) ^ 2 - 1" by blast
  then have "r = corner_row_x p k"
  proof cases
    case 1
    from F have R: "r = 0 \<or> r = 1" and "0 = 2 * f + m \<or> 0 = 2 * f + m + 1"
      unfolding 1 corner_split(1,2)[OF p] by simp_all
    then have "m = 0" using f m by (elim disjE; linarith)
    with rm R have "r = 0" by auto
    then show ?thesis using 1 by (simp add: corner_row_x_def)
  next
    case 2
    from F have R: "r = 0 \<or> r = 1" and "2 * p = 2 * f + m \<or> 2 * p = 2 * f + m + 1"
      unfolding 2 corner_split(3,4)[OF p] by simp_all
    then have "m = 1" using f m by (elim disjE; linarith)
    with rm R have "r = 1" by auto
    then show ?thesis using 2 ne by (simp add: corner_row_x_def)
  next
    case 3
    from F have R: "r = 2 * p \<or> r = 2 * p + 1" and "0 = 2 * f + m \<or> 0 = 2 * f + m + 1"
      unfolding 3 corner_split(5,6)[OF p] by simp_all
    then have "m = 0" using f m by (elim disjE; linarith)
    with rm R have "r = 2 * p" by auto
    then show ?thesis using 3 ne by (simp add: corner_row_x_def)
  next
    case 4
    from F have R: "r = 2 * p \<or> r = 2 * p + 1" and "2 * p = 2 * f + m \<or> 2 * p = 2 * f + m + 1"
      unfolding 4 corner_split(7,8)[OF p] by simp_all
    then have "m = 1" using f m by (elim disjE; linarith)
    with rm R have "r = 2 * p + 1" by auto
    then show ?thesis using 4 ne by (simp add: corner_row_x_def)
  qed
  then show ?thesis by (simp add: r_def)
qed

lemma mz_corner_row:
  fixes p s k :: int
  assumes p: "1 \<le> p" and s: "0 \<le> s" "s < 2 * p * (p + 1)"
    and k: "Some k \<in> set (neighbours (mz_plaquette (2 * p + 1) s))"
    and c: "k \<in> {0, 2 * p + 1 - 1, (2 * p + 1) ^ 2 - (2 * p + 1), (2 * p + 1) ^ 2 - 1}"
  shows "s div (p + 1) = corner_row_z p k"
proof -
  define r where "r = s div (p + 1)"
  have "s < (2 * p) * (p + 1)" using s by (simp add: algebra_simps)
  from row_offset[OF _ s(1) this] p
  have r: "0 \<le> r" "r < 2 * p" by (simp_all add: r_def)
  from mz_neighbour_form[OF p s k, folded r_def]
  have F: "r = k div (2 * p + 1) \<or> r = k div (2 * p + 1) - 1" by simp
  note ne = corners_distinct[OF p]
  from c consider "k = 0" | "k = 2 * p + 1 - 1" | "k = (2 * p + 1) ^ 2 - (2 * p + 1)"
    | "k = (2 * p + 1) ^ 2 - 1" by blast
  then have "r = corner_row_z p k"
  proof cases
    case 1
    from F have "r = 0 \<or> r = 0 - 1" unfolding 1 corner_split(1)[OF p] .
    with r show ?thesis using 1 by (auto simp: corner_row_z_def)
  next
    case 2
    from F have "r = 0 \<or> r = 0 - 1" unfolding 2 corner_split(3)[OF p] .
    with r show ?thesis using 2 by (auto simp: corner_row_z_def)
  next
    case 3
    from F have "r = 2 * p \<or> r = 2 * p - 1" unfolding 3 corner_split(5)[OF p] .
    with r show ?thesis using 3 ne by (auto simp: corner_row_z_def)
  next
    case 4
    from F have "r = 2 * p \<or> r = 2 * p - 1" unfolding 4 corner_split(7)[OF p] .
    with r show ?thesis using 4 ne by (auto simp: corner_row_z_def)
  qed
  then show ?thesis by (simp add: r_def)
qed

lemma mx_occurrences_corner:
  fixes p :: int
  assumes "1 \<le> p"
    and c: "k \<in> {0, 2 * p + 1 - 1, (2 * p + 1) ^ 2 - (2 * p + 1), (2 * p + 1) ^ 2 - 1}"
  shows "occurrences (map (mx_plaquette (2 * p + 1)) (py_range (2 * p * (p + 1)))) k \<le> 1"
proof -
  let ?A = "{sx p k (corner_row_x p k)}"
  have "occurrences (map (mx_plaquette (2 * p + 1)) (py_range (2 * p * (p + 1)))) k \<le> card ?A"
  proof (rule occurrences_le_card[OF distinct_py_range])
    show "finite ?A" by simp
    fix s assume s: "s \<in> set (py_range (2 * p * (p + 1)))"
      and k: "Some k \<in> set (neighbours (mx_plaquette (2 * p + 1) s))"
    from s have r: "0 \<le> s" "s < 2 * p * (p + 1)" by (simp_all add: set_py_range)
    from mx_syn_candidates[OF assms(1) r k] mx_corner_row[OF assms(1) r k c]
    show "s \<in> ?A" by simp
  qed
  then show ?thesis by simp
qed

lemma mz_occurrences_corner:
  fixes p :: int
  assumes "1 \<le> p"
    and c: "k \<in> {0, 2 * p + 1 - 1, (2 * p + 1) ^ 2 - (2 * p + 1), (2 * p + 1) ^ 2 - 1}"
  shows "occurrences (map (mz_plaquette (2 * p + 1)) (py_range (2 * p * (p + 1)))) k \<le> 1"
proof -
  let ?A = "{sz p k (corner_row_z p k)}"
  have "occurrences (map (mz_plaquette (2 * p + 1)) (py_range (2 * p * (p + 1)))) k \<le> card ?A"
  proof (rule occurrences_le_card[OF distinct_py_range])
    show "finite ?A" by simp
    fix s assume s: "s \<in> set (py_range (2 * p * (p + 1)))"
      and k: "Some k \<in> set (neighbours (mz_plaquette (2 * p + 1) s))"
    from s have r: "0 \<le> s" "s < 2 * p * (p + 1)" by (simp_all add: set_py_range)
    from mz_syn_candidates[OF assms(1) r k] mz_corner_row[OF assms(1) r k c]
    show "s \<in> ?A" by simp
  qed
  then show ?thesis by simp
qed

lemma syndrome_mz_plaquette [simp]: "syndrome (mz_plaquette dd s) = s"
  by (simp add: mz_plaquette_def Let_def)

lemma syndrome_mx_plaquette [simp]: "syndrome (mx_plaquette dd s) = s"
  by (simp add: mx_plaquette_def Let_def)

lemma div_eq_iff_interval:
  fixes s per r :: int
  assumes "0 < per"
  shows "s div per = r \<longleftrightarrow> r * per \<le> s \<and> s < (r + 1) * per"
proof
  assume "s div per = r"
  then have e: "s = r * per + s mod per" by (metis div_mult_mod_eq)
  have "0 \<le> s mod per" "s mod per < per" using assms by simp_all
  then show "r * per \<le> s \<and> s < (r + 1) * per" using e by (simp add: algebra_simps)
next
  assume a: "r * per \<le> s \<and> s < (r + 1) * per"
  have e: "s = per * r + (s - r * per)" by (simp add: algebra_simps)
  show "s div per = r"
    by (rule int_div_pos_eq[OF e]) (use a in \<open>simp_all add: algebra_simps\<close>)
qed

lemma mz_rows_spanned:
  fixes p :: int
  assumes p: "1 \<le> p"
  shows "mz_row (2 * p + 1) ` set (py_range (2 * p * (p + 1))) = {0..2 * p - 1}"
proof (intro set_eqI iffI)
  fix r assume "r \<in> mz_row (2 * p + 1) ` set (py_range (2 * p * (p + 1)))"
  then obtain s where s: "0 \<le> s" "s < 2 * p * (p + 1)" and r: "r = s div (p + 1)"
    by (auto simp: set_py_range mz_row_def per_row_z_odd)
  have "s < (2 * p) * (p + 1)" using s by (simp add: algebra_simps)
  from row_offset(1,2)[OF _ s(1) this] p show "r \<in> {0..2 * p - 1}" by (simp add: r)
next
  fix r assume "r \<in> {0..2 * p - 1}"
  then have r: "0 \<le> r" "r \<le> 2 * p - 1" by simp_all
  have lo: "0 \<le> r * (p + 1)" using r p by simp
  have "r * (p + 1) \<le> (2 * p - 1) * (p + 1)" using r p by (intro mult_right_mono) simp_all
  then have up: "r * (p + 1) < 2 * p * (p + 1)" using p by (simp add: algebra_simps)
  have "mz_row (2 * p + 1) (r * (p + 1)) = r" using p by (simp add: mz_row_def per_row_z_odd)
  with lo up show "r \<in> mz_row (2 * p + 1) ` set (py_range (2 * p * (p + 1)))"
    by (force simp: set_py_range)
qed

lemma mz_row_count:
  fixes p r :: int
  assumes p: "1 \<le> p" and r: "0 \<le> r" "r \<le> 2 * p - 1"
  shows "length (filter (\<lambda>s. mz_row (2 * p + 1) s = r) (py_range (2 * p * (p + 1)))) = nat (p + 1)"
proof -
  have lo: "0 \<le> r * (p + 1)" using r p by simp
  have "(r + 1) * (p + 1) \<le> (2 * p) * (p + 1)" using r p by (intro mult_right_mono) simp_all
  then have up: "(r + 1) * (p + 1) \<le> 2 * p * (p + 1)" by (simp add: algebra_simps)
  have "{s. mz_row (2 * p + 1) s = r} \<inter> set (py_range (2 * p * (p + 1)))
        = {r * (p + 1) ..< (r + 1) * (p + 1)}"
  proof (intro set_eqI iffI)
    fix s assume "s \<in> {s. mz_row (2 * p + 1) s = r} \<inter> set (py_range (2 * p * (p + 1)))"
    then show "s \<in> {r * (p + 1) ..< (r + 1) * (p + 1)}"
      using p by (simp add: mz_row_def per_row_z_odd div_eq_iff_interval)
  next
    fix s assume "s \<in> {r * (p + 1) ..< (r + 1) * (p + 1)}"
    then have b: "r * (p + 1) \<le> s" "s < (r + 1) * (p + 1)" by simp_all
    then have "0 \<le> s" "s < 2 * p * (p + 1)" using lo up by linarith+
    moreover have "mz_row (2 * p + 1) s = r"
      using b p by (simp add: mz_row_def per_row_z_odd div_eq_iff_interval)
    ultimately show "s \<in> {s. mz_row (2 * p + 1) s = r} \<inter> set (py_range (2 * p * (p + 1)))"
      by (simp add: set_py_range)
  qed
  then have "length (filter (\<lambda>s. mz_row (2 * p + 1) s = r) (py_range (2 * p * (p + 1))))
      = card {r * (p + 1) ..< (r + 1) * (p + 1)}"
    by (simp add: distinct_length_filter[OF distinct_py_range])
  also have "\<dots> = nat (p + 1)" by (simp add: algebra_simps)
  finally show ?thesis .
qed

lemma geometry_of_distance:
  assumes "dd mod 2 = 1" "1 \<le> dd" "params_of_d dd P"
  obtains p where "0 \<le> p" "dd = 2 * p + 1" "(dd ^ 2 - 1) div 2 = 2 * p * (p + 1)"
    "geometry_of P = Inr \<lparr> mx = map (mx_plaquette dd) (py_range (2 * p * (p + 1))),
                            mz = map (mz_plaquette dd) (py_range (2 * p * (p + 1))) \<rparr>"
proof -
  obtain p where p: "0 \<le> p" "dd = 2 * p + 1"
    using odd_distance_cases[OF assms(1,2)] by blast
  have n: "(dd ^ 2 - 1) div 2 = 2 * p * (p + 1)" unfolding p(2) by (rule num_syn_odd)
  have P: "param_d P = dd" "num_syn P = 2 * p * (p + 1)"
    using assms(3) n by (simp_all add: params_of_d_def)
  have "geometry_of P = Inr \<lparr> mx = map (mx_plaquette dd) (py_range (2 * p * (p + 1))),
                            mz = map (mz_plaquette dd) (py_range (2 * p * (p + 1))) \<rparr>"
  proof (cases "p = 0")
    case True
    then have "py_range (num_syn P) = []" using P by (simp add: py_range_def)
    then show ?thesis using P True by (simp add: geometry_of_def Let_def)
  next
    case False
    then have "per_row_x dd \<noteq> 0" "per_row_z dd \<noteq> 0"
      using p by (simp_all add: per_row_x_def per_row_z_def)
    then show ?thesis using P by (simp add: geometry_of_def Let_def)
  qed
  then show ?thesis using that p n by blast
qed

lemma geometry_d3:
  "geometry_of \<lparr> param_d = 3, param_T = - 1, num_readout = - 1, num_lattice_readout = - 1,
                  num_data = 9, num_syn = 4 \<rparr>
   = Inr \<lparr> mx = [\<lparr> syndrome = 0, top_l = None, top_r = None, bot_l = Some 0, bot_r = Some 1 \<rparr>,
                  \<lparr> syndrome = 1, top_l = Some 1, top_r = Some 2, bot_l = Some 4, bot_r = Some 5 \<rparr>,
                  \<lparr> syndrome = 2, top_l = Some 3, top_r = Some 4, bot_l = Some 6, bot_r = Some 7 \<rparr>,
                  \<lparr> syndrome = 3, top_l = Some 7, top_r = Some 8, bot_l = None, bot_r = None \<rparr>],
            mz = [\<lparr> syndrome = 0, top_l = Some 0, top_r = Some 1, bot_l = Some 3, bot_r = Some 4 \<rparr>,
                  \<lparr> syndrome = 1, top_l = Some 2, top_r = None, bot_l = Some 5, bot_r = None \<rparr>,
                  \<lparr> syndrome = 2, top_l = None, top_r = Some 3, bot_l = None, bot_r = Some 6 \<rparr>,
                  \<lparr> syndrome = 3, top_l = Some 4, top_r = Some 5, bot_l = Some 7, bot_r = Some 8 \<rparr>] \<rparr>"
  by code_simp

section \<open>The final readout\<close>

lemma geometry_in_range:
  assumes "dd mod 2 = 1" "1 \<le> dd" "params_of_d dd P" "geometry_of P = Inr g"
    and q: "q \<in> set (mx g) \<union> set (mz g)" and k: "Some k \<in> set (neighbours q)"
  shows "0 \<le> k \<and> k < dd ^ 2"
proof -
  from assms(1-3) obtain p where p: "0 \<le> p" "dd = 2 * p + 1"
    and g': "geometry_of P = Inr \<lparr> mx = map (mx_plaquette dd) (py_range (2 * p * (p + 1))),
                            mz = map (mz_plaquette dd) (py_range (2 * p * (p + 1))) \<rparr>"
    by (auto elim: geometry_of_distance)
  from g' assms(4) have g: "g = \<lparr> mx = map (mx_plaquette dd) (py_range (2 * p * (p + 1))),
                            mz = map (mz_plaquette dd) (py_range (2 * p * (p + 1))) \<rparr>" by simp
  from q obtain s where s: "0 \<le> s" "s < 2 * p * (p + 1)"
    and qs: "q = mx_plaquette (2 * p + 1) s \<or> q = mz_plaquette (2 * p + 1) s"
    unfolding g by (auto simp: set_py_range p(2))
  have p1: "1 \<le> p"
  proof (rule ccontr)
    assume "\<not> 1 \<le> p"
    then have "p = 0" using p(1) by simp
    then show False using s by simp
  qed
  from qs have "0 \<le> k div (2 * p + 1) \<and> k div (2 * p + 1) \<le> 2 * p"
  proof
    assume "q = mx_plaquette (2 * p + 1) s"
    with k mx_neighbour_form[OF p1 s, of k] show ?thesis by simp
  next
    assume "q = mz_plaquette (2 * p + 1) s"
    with k mz_neighbour_form[OF p1 s, of k] show ?thesis by simp
  qed
  then show ?thesis using index_in_range[of k p] p1 p(2) by simp
qed

lemma py_index_in_range:
  "0 \<le> k \<Longrightarrow> k < int (length xs) \<Longrightarrow> py_index xs k = Inr (xs ! nat k)"
  by (simp add: py_index_def)

lemma map_err_length: "map_err f xs = Inr ys \<Longrightarrow> length ys = length xs"
  by (induction xs arbitrary: ys) (auto split: sum.splits)

lemma stabilizer_val_in_range:
  assumes "\<And>k. Some k \<in> set (neighbours q) \<Longrightarrow> 0 \<le> k \<and> k < int (length rv)"
  shows "stabilizer_val rv q = Inr (spec_plaquette_bit rv q)"
proof -
  have a: "top_l q = Some k \<Longrightarrow> py_index rv k = Inr (rv ! nat k)" for k
    using assms[of k] by (simp add: neighbours_def py_index_in_range)
  have b: "top_r q = Some k \<Longrightarrow> py_index rv k = Inr (rv ! nat k)" for k
    using assms[of k] by (simp add: neighbours_def py_index_in_range)
  have c: "bot_l q = Some k \<Longrightarrow> py_index rv k = Inr (rv ! nat k)" for k
    using assms[of k] by (simp add: neighbours_def py_index_in_range)
  have d: "bot_r q = Some k \<Longrightarrow> py_index rv k = Inr (rv ! nat k)" for k
    using assms[of k] by (simp add: neighbours_def py_index_in_range)
  show ?thesis
    by (cases "top_l q"; cases "top_r q"; cases "bot_l q"; cases "bot_r q")
       (simp_all add: stabilizer_val_def spec_plaquette_bit_def neighbours_def
          List.map_filter_def a b c d)
qed

lemma str_int_mod2: "str_int (x mod 2) = [if x mod 2 = 0 then CHR ''0'' else CHR ''1'']"
proof -
  have "x mod 2 = 0 \<or> x mod 2 = 1" by presburger
  then show ?thesis
    by (auto simp: str_int_def str_nat.simps[of 0] str_nat.simps[of "Suc 0"] digit_char_def)
qed

lemma spec_plaquette_bit_mod2: "spec_plaquette_bit rv q mod 2 = spec_plaquette_bit rv q"
  by (simp add: spec_plaquette_bit_def)

lemma stabilizer_loop_in_range:
  assumes "\<And>q k. q \<in> set qs \<Longrightarrow> Some k \<in> set (neighbours q) \<Longrightarrow> 0 \<le> k \<and> k < int (length rv)"
  shows "stabilizer_loop rv qs acc = Inr (spec_half rv qs @ acc)"
  using assms
proof (induction qs arbitrary: acc)
  case Nil
  then show ?case by (simp add: spec_half_def)
next
  case (Cons q qs)
  have v: "stabilizer_val rv q = Inr (spec_plaquette_bit rv q)"
    using Cons.prems by (intro stabilizer_val_in_range) auto
  have s: "str_int (spec_plaquette_bit rv q)
             = [if spec_plaquette_bit rv q = 0 then CHR ''0'' else CHR ''1'']"
    using str_int_mod2[of "spec_plaquette_bit rv q"] by (simp add: spec_plaquette_bit_mod2)
  have "stabilizer_loop rv qs (str_int (spec_plaquette_bit rv q) @ acc)
          = Inr (spec_half rv qs @ str_int (spec_plaquette_bit rv q) @ acc)"
    using Cons.prems by (intro Cons.IH) auto
  then show ?case by (simp add: v s spec_half_def)
qed

lemma logical_loop_in_range:
  assumes "\<And>i. i \<in> set idxs \<Longrightarrow> 0 \<le> i \<and> i < int (length rv)" "lr mod 2 = lr"
  shows "logical_loop rv idxs lr = Inr ((lr + (\<Sum>i \<leftarrow> idxs. rv ! nat i)) mod 2)"
  using assms
proof (induction idxs arbitrary: lr)
  case Nil
  then show ?case by simp
next
  case (Cons i idxs)
  have v: "py_index rv i = Inr (rv ! nat i)"
    using Cons.prems by (intro py_index_in_range) auto
  have "logical_loop rv idxs ((lr + rv ! nat i) mod 2)
        = Inr (((lr + rv ! nat i) mod 2 + (\<Sum>i \<leftarrow> idxs. rv ! nat i)) mod 2)"
    using Cons.prems by (intro Cons.IH) auto
  also have "((lr + rv ! nat i) mod 2 + (\<Sum>i \<leftarrow> idxs. rv ! nat i)) mod 2
       = (lr + (\<Sum>i \<leftarrow> i # idxs. rv ! nat i)) mod 2"
    by (simp add: mod_add_left_eq add.assoc)
  finally show ?case by (simp add: v)
qed

lemma py_range_step_column:
  fixes dd :: int
  assumes "1 \<le> dd"
  shows "py_range_step (dd ^ 2) dd = Inr (map (\<lambda>i. i * dd) [0..dd - 1])"
proof -
  have e: "dd ^ 2 - 1 = dd * (dd - 1) + (dd - 1)" by (simp add: power2_eq_square algebra_simps)
  have "(dd ^ 2 - 1) div dd = dd - 1"
    by (rule int_div_pos_eq[OF e]) (use assms in simp_all)
  then show ?thesis using assms by (simp add: py_range_step_def)
qed

lemma column_index_in_range:
  fixes dd i :: int
  assumes "1 \<le> dd" "0 \<le> i" "i \<le> dd - 1"
  shows "0 \<le> i * dd \<and> i * dd < dd ^ 2"
proof -
  have "i * dd \<le> (dd - 1) * dd" using assms by (intro mult_right_mono) simp_all
  moreover have "(dd - 1) * dd = dd ^ 2 - dd" by (simp add: power2_eq_square algebra_simps)
  ultimately have "i * dd < dd ^ 2" using assms(1) by linarith
  moreover have "0 \<le> i * dd" using assms by simp
  ultimately show ?thesis by simp
qed

lemma row_index_in_range:
  fixes dd i :: int
  assumes "1 \<le> dd" "0 \<le> i" "i \<le> dd - 1"
  shows "i < dd ^ 2"
proof -
  have "dd * 1 \<le> dd * dd" using assms(1) by (intro mult_left_mono) simp_all
  then show ?thesis using assms unfolding power2_eq_square by linarith
qed

lemma extract_x_readable:
  assumes "dd mod 2 = 1" "1 \<le> dd" "params_of_d dd P" "geometry_of P = Inr g"
    and vs: "map_err int_of_char fr = Inr vs" and len: "dd ^ 2 \<le> int (length fr)"
  shows "extract_final_stabilizer_and_logical_readout_x P g fr prev =
           Inr (spec_logical_x dd (rev vs), spec_half (rev vs) (mx g) @ drop (nat (num_syn P)) prev)"
proof -
  have l: "dd ^ 2 \<le> int (length (rev vs))" using len map_err_length[OF vs] by simp
  have P: "param_d P = dd" "num_data P = dd ^ 2" "num_syn P = (dd ^ 2 - 1) div 2"
    using assms(3) by (simp_all add: params_of_d_def)
  have n: "0 \<le> num_syn P" unfolding P using assms(2) by simp
  have loop: "stabilizer_loop (rev vs) (mx g) [] = Inr (spec_half (rev vs) (mx g) @ [])"
  proof (rule stabilizer_loop_in_range)
    fix q k assume "q \<in> set (mx g)" "Some k \<in> set (neighbours q)"
    with geometry_in_range[OF assms(1-4), of q k] l
    show "0 \<le> k \<and> k < int (length (rev vs))" by simp
  qed
  have lg: "logical_loop (rev vs) (map (\<lambda>i. i * dd) [0..dd - 1]) 0
      = Inr ((0 + (\<Sum>i \<leftarrow> map (\<lambda>i. i * dd) [0..dd - 1]. rev vs ! nat i)) mod 2)"
  proof (rule logical_loop_in_range)
    fix i assume "i \<in> set (map (\<lambda>i. i * dd) [0..dd - 1])"
    then obtain j where j: "0 \<le> j" "j \<le> dd - 1" "i = j * dd" by auto
    from column_index_in_range[OF assms(2) j(1,2)] l j(3)
    show "0 \<le> i \<and> i < int (length (rev vs))" by simp
  qed simp
  have sm: "(\<Sum>i \<leftarrow> map (\<lambda>i. i * dd) [0..dd - 1]. rev vs ! nat i)
           = (\<Sum>i \<leftarrow> [0..dd - 1]. rev vs ! nat (i * dd))"
    by (simp add: comp_def)
  show ?thesis
    unfolding extract_final_stabilizer_and_logical_readout_x_def
    using n by (simp add: vs loop P py_range_step_column[OF assms(2)] lg sm
        spec_logical_x_def py_slice_from_def Let_def comp_def)
qed

lemma extract_z_readable:
  assumes "dd mod 2 = 1" "1 \<le> dd" "params_of_d dd P" "geometry_of P = Inr g"
    and vs: "map_err int_of_char fr = Inr vs" and len: "dd ^ 2 \<le> int (length fr)"
  shows "extract_final_stabilizer_and_logical_readout_z P g fr prev =
           Inr (spec_logical_z dd (rev vs), take (nat (num_syn P)) prev @ spec_half (rev vs) (mz g))"
proof -
  have l: "dd ^ 2 \<le> int (length (rev vs))" using len map_err_length[OF vs] by simp
  have P: "param_d P = dd" "num_data P = dd ^ 2" "num_syn P = (dd ^ 2 - 1) div 2"
    using assms(3) by (simp_all add: params_of_d_def)
  have n: "0 \<le> num_syn P" unfolding P using assms(2) by simp
  have loop: "stabilizer_loop (rev vs) (mz g) [] = Inr (spec_half (rev vs) (mz g) @ [])"
  proof (rule stabilizer_loop_in_range)
    fix q k assume "q \<in> set (mz g)" "Some k \<in> set (neighbours q)"
    with geometry_in_range[OF assms(1-4), of q k] l
    show "0 \<le> k \<and> k < int (length (rev vs))" by simp
  qed
  have lg: "logical_loop (rev vs) [0..dd - 1] 0
      = Inr ((0 + (\<Sum>i \<leftarrow> [0..dd - 1]. rev vs ! nat i)) mod 2)"
  proof (rule logical_loop_in_range)
    fix i assume "i \<in> set [0..dd - 1]"
    then have j: "0 \<le> i" "i \<le> dd - 1" by simp_all
    from row_index_in_range[OF assms(2) j] l j(1)
    show "0 \<le> i \<and> i < int (length (rev vs))" by simp
  qed simp
  show ?thesis
    unfolding extract_final_stabilizer_and_logical_readout_z_def
    using n by (simp add: vs loop P lg spec_logical_z_def py_slice_to_def py_range_def Let_def)
qed


section \<open>The transcript parser\<close>

lemma int_base2_acc_append:
  "int_base2_acc acc (xs @ ys) =
     (case int_base2_acc acc xs of Inl e \<Rightarrow> Inl e | Inr a \<Rightarrow> int_base2_acc a ys)"
  by (induction xs arbitrary: acc) (auto split: sum.splits)

lemma int_base2_acc_ones:
  "int_base2_acc acc (replicate n (CHR ''1'')) = Inr (acc * 2 ^ n + (2 ^ n - 1))"
  by (induction n arbitrary: acc) (simp_all add: bit_of_char_def algebra_simps)

lemma int_base2_acc_zeros:
  "int_base2_acc acc (replicate n (CHR ''0'')) = Inr (acc * 2 ^ n)"
  by (induction n arbitrary: acc) (simp_all add: bit_of_char_def algebra_simps)

lemma int_base2_mask_Z:
  "0 < n \<Longrightarrow> int_base2 (replicate n (CHR ''1'')) = Inr (mask n)"
  by (simp add: int_base2_def int_base2_acc_ones mask_eq_exp_minus_1)

lemma int_base2_mask_X:
  "0 < n \<Longrightarrow> int_base2 (replicate n (CHR ''1'') @ replicate n (CHR ''0''))
     = Inr (push_bit n (mask n))"
  by (simp add: int_base2_def int_base2_acc_append int_base2_acc_ones int_base2_acc_zeros
      mask_eq_exp_minus_1 push_bit_eq_mult)

lemma map_err_total: "map_err (\<lambda>x. Inr (f x)) xs = Inr (map f xs)"
  by (induction xs) simp_all

lemma high_half_bit:
  fixes x :: int
  assumes "loc < n"
  shows "drop_bit n (x AND push_bit n (mask n)) AND push_bit loc 1 \<noteq> 0 \<longleftrightarrow> bit x (n + loc)"
proof -
  have "drop_bit n (x AND push_bit n (mask n)) AND push_bit loc 1 \<noteq> 0
        \<longleftrightarrow> bit (drop_bit n (x AND push_bit n (mask n))) loc"
    by (simp add: bit_iff_and_push_bit_not_eq_0)
  also have "\<dots> \<longleftrightarrow> bit x (n + loc)"
    using assms by (simp add: bit_drop_bit_eq bit_and_iff bit_push_bit_iff bit_mask_iff)
  finally show ?thesis .
qed

lemma low_half_bit:
  fixes x :: int
  assumes "loc < n"
  shows "(x AND mask n) AND push_bit loc 1 \<noteq> 0 \<longleftrightarrow> bit x loc"
proof -
  have "(x AND mask n) AND push_bit loc 1 \<noteq> 0 \<longleftrightarrow> bit (x AND mask n) loc"
    by (simp add: bit_iff_and_push_bit_not_eq_0)
  also have "\<dots> \<longleftrightarrow> bit x loc"
    using assms by (simp add: bit_and_iff bit_mask_iff)
  finally show ?thesis .
qed

lemma map_filter_concat:
  "map f (filter C xs) = concat (map (\<lambda>x. if C x then [f x] else []) xs)"
  by (induction xs) simp_all

lemma enumerate_map_nth:
  "enumerate 0 (map h xs) = map (\<lambda>i. (i, h (xs ! i))) [0..<length xs]"
  by (rule nth_equalityI) (simp_all add: nth_enumerate_eq)

lemma xor_pairs_nth:
  "map (\<lambda>(a, b). a XOR b) (zip ints (tl ints))
     = map (\<lambda>i. ints ! i XOR ints ! Suc i) [0..<length ints - 1]"
  by (rule nth_equalityI) (simp_all add: nth_tl)

lemma enumerate_map_upt:
  "enumerate 0 (map w [0..<k]) = map (\<lambda>i. (i, w i)) [0..<k]"
  by (rule nth_equalityI) (simp_all add: nth_enumerate_eq)

lemma defects_form:
  assumes "\<And>T loc. T < k \<Longrightarrow> loc \<in> set L \<Longrightarrow>
             (w T AND push_bit (nat loc) 1 \<noteq> 0) = C T loc"
  shows "concat (map (\<lambda>(T, syndrome).
                   map (f T) (filter (\<lambda>loc. syndrome AND push_bit (nat loc) 1 \<noteq> 0) L))
                (enumerate 0 (map w [0..<k])))
         = [f T loc. T \<leftarrow> [0..<k], loc \<leftarrow> L, C T loc]"
proof -
  have "map (f T) (filter (\<lambda>loc. w T AND push_bit (nat loc) 1 \<noteq> 0) L)
        = concat (map (\<lambda>loc. if C T loc then [f T loc] else []) L)" if "T < k" for T
    unfolding map_filter_concat using assms[OF that]
    by (intro arg_cong[where f=concat] map_cong refl) simp
  then have "concat (map (\<lambda>T. map (f T)
                  (filter (\<lambda>loc. w T AND push_bit (nat loc) 1 \<noteq> 0) L)) [0..<k])
      = concat (map (\<lambda>T. concat (map (\<lambda>loc. if C T loc then [f T loc] else []) L)) [0..<k])"
    by (intro arg_cong[where f=concat] map_cong refl) simp
  then show ?thesis
    unfolding enumerate_map_upt map_map comp_def prod.case .
qed

lemma decode_syndromes_readable:
  assumes ints: "map_err int_base2 (rev chunks) = Inr ints"
    and n: "0 < num_syn P \<or> length chunks \<le> 1"
  shows "decode_syndromes P lr chunks =
     Inr (lr,
          [(real T, - 0.5 + real_of_int loc, 0.5 + real_of_int (loc mod 2)).
             T \<leftarrow> [0..<length ints - 1], loc \<leftarrow> py_range (num_syn P),
             bit (ints ! T XOR ints ! Suc T) (nat (num_syn P) + nat loc)],
          [(real T, 0.5 + real_of_int (loc div 2),
              0.5 + real_of_int (loc mod 2) * 2 - real_of_int (loc div 2)).
             T \<leftarrow> [0..<length ints - 1], loc \<leftarrow> py_range (num_syn P),
             bit (ints ! T XOR ints ! Suc T) (nat loc)])"
proof (cases "0 < num_syn P")
  case False
  with n have "length chunks \<le> 1" by simp
  then have "length ints \<le> 1" using map_err_length[OF ints] by simp
  then have e: "zip ints (tl ints) = []" "length ints - Suc 0 = 0"
    by (cases ints; simp)+
  show ?thesis by (simp add: decode_syndromes_def ints e)
next
  case True
  define m where "m = nat (num_syn P)"
  have m: "0 < m" using True by (simp add: m_def)
  have loc: "nat loc < m" if "loc \<in> set (py_range (num_syn P))" for loc
    using that by (auto simp: set_py_range m_def)
  let ?xs = "map (\<lambda>i. ints ! i XOR ints ! Suc i) [0..<length ints - 1]"
  have X: "map_err (\<lambda>x. case int_base2 (replicate m (CHR ''1'') @ replicate m (CHR ''0'')) of
                                 Inl e \<Rightarrow> Inl e
                               | Inr k \<Rightarrow> if num_syn P < 0 then Inl ValueError
                                          else Inr (drop_bit m (x AND k))) ?xs
      = Inr (map (\<lambda>i. drop_bit m ((ints ! i XOR ints ! Suc i) AND push_bit m (mask m)))
               [0..<length ints - 1])"
    using True by (simp add: int_base2_mask_X[OF m] map_err_total comp_def)
  have Z: "map_err (\<lambda>x. case int_base2 (replicate m (CHR ''1'')) of
                                      Inl e \<Rightarrow> Inl e
                                    | Inr k \<Rightarrow> Inr (x AND k)) ?xs
      = Inr (map (\<lambda>i. (ints ! i XOR ints ! Suc i) AND mask m) [0..<length ints - 1])"
    by (simp add: int_base2_mask_Z[OF m] map_err_total comp_def)
  have cx: "concat (map (\<lambda>(T, syndrome).
                 map (\<lambda>loc. (real T, - 0.5 + real_of_int loc, 0.5 + real_of_int (loc mod 2)))
                   (filter (\<lambda>loc. syndrome AND push_bit (nat loc) 1 \<noteq> 0) (py_range (num_syn P))))
              (enumerate 0 (map (\<lambda>i. drop_bit m ((ints ! i XOR ints ! Suc i)
                                                    AND push_bit m (mask m)))
                               [0..<length ints - 1])))
       = [(real T, - 0.5 + real_of_int loc, 0.5 + real_of_int (loc mod 2)).
             T \<leftarrow> [0..<length ints - 1], loc \<leftarrow> py_range (num_syn P),
             bit (ints ! T XOR ints ! Suc T) (m + nat loc)]"
    by (rule defects_form) (rule high_half_bit[OF loc])
  have cz: "concat (map (\<lambda>(T, syndrome).
                 map (\<lambda>loc. (real T, 0.5 + real_of_int (loc div 2),
                              0.5 + real_of_int (loc mod 2) * 2 - real_of_int (loc div 2)))
                   (filter (\<lambda>loc. syndrome AND push_bit (nat loc) 1 \<noteq> 0) (py_range (num_syn P))))
              (enumerate 0 (map (\<lambda>i. (ints ! i XOR ints ! Suc i) AND mask m)
                               [0..<length ints - 1])))
       = [(real T, 0.5 + real_of_int (loc div 2),
              0.5 + real_of_int (loc mod 2) * 2 - real_of_int (loc div 2)).
             T \<leftarrow> [0..<length ints - 1], loc \<leftarrow> py_range (num_syn P),
             bit (ints ! T XOR ints ! Suc T) (nat loc)]"
    by (rule defects_form) (rule low_half_bit[OF loc])
  show ?thesis
    unfolding decode_syndromes_def ints xor_pairs_nth m_def[symmetric] Let_def
    by (simp only: sum.case X Z cx cz)
qed

section \<open>A round of stabilization\<close>

lemma map_err_all_Inr:
  assumes "\<And>x. x \<in> set xs \<Longrightarrow> f x = Inr (h x)"
  shows "map_err f xs = Inr (map h xs)"
  using assms by (induction xs) simp_all

text \<open>A plaquette record, its indices replaced by the qubits of the two registers.\<close>

lemma reg_index_in_range:
  "0 \<le> i \<Longrightarrow> i < n \<Longrightarrow> reg_index (nm, n) i = Inr (Qubit nm i)"
  by (simp add: reg_index_def)

lemma plaquette_qubits_in_range:
  assumes s: "0 \<le> syndrome r" "syndrome r < n"
    and k: "\<And>k. Some k \<in> set (neighbours r) \<Longrightarrow> 0 \<le> k \<and> k < nd"
  shows "plaquette_qubits (sn, n) (dn, nd) r =
           Inr \<lparr> syndrome = Qubit sn (syndrome r),
                 top_l = map_option (Qubit dn) (top_l r), top_r = map_option (Qubit dn) (top_r r),
                 bot_l = map_option (Qubit dn) (bot_l r), bot_r = map_option (Qubit dn) (bot_r r) \<rparr>"
proof -
  have d: "data_qubit (dn, nd) x = Inr (map_option (Qubit dn) x)" if "x \<in> set (neighbours r)" for x
    using k[of "the x"] that by (cases x) (simp_all add: data_qubit_def reg_index_in_range)
  have "map_err (data_qubit (dn, nd)) (neighbours r) = Inr (map (map_option (Qubit dn)) (neighbours r))"
    by (rule map_err_all_Inr) (rule d)
  then show ?thesis
    by (simp add: plaquette_qubits_def reg_index_in_range[OF s] neighbours_def)
qed

lemma run_emits:
  assumes "\<And>x c. x \<in> set xs \<Longrightarrow> f x c = (None, c\<lparr> instrs := instrs c @ ops x \<rparr>)"
  shows "run (map f xs) c = (None, c\<lparr> instrs := instrs c @ concat (map ops xs) \<rparr>)"
  using assms by (induction xs arbitrary: c) simp_all

lemma XXXX_entangle_record:
  assumes "top_r r = None \<longleftrightarrow> top_l r = None" "bot_r r = None \<longleftrightarrow> bot_l r = None"
  shows "XXXX_entangle \<lparr> syndrome = Qubit (nm @ ''_mx'') (syndrome r),
                 top_l = map_option (Qubit (nm @ ''_data'')) (top_l r),
                 top_r = map_option (Qubit (nm @ ''_data'')) (top_r r),
                 bot_l = map_option (Qubit (nm @ ''_data'')) (bot_l r),
                 bot_r = map_option (Qubit (nm @ ''_data'')) (bot_r r) \<rparr> c
         = (None, c\<lparr> instrs := instrs c @ spec_x_protocol nm r \<rparr>)"
  using assms
  by (cases "top_l r"; cases "top_r r"; cases "bot_l r"; cases "bot_r r")
     (simp_all add: XXXX_entangle_def spec_x_protocol_def circ_h_def circ_cx_def emit_def skip_def)

lemma ZZZZ_entangle_record:
  assumes "top_r r = None \<longleftrightarrow> bot_r r = None" "top_l r = None \<longleftrightarrow> bot_l r = None"
  shows "ZZZZ_entangle \<lparr> syndrome = Qubit (nm @ ''_mz'') (syndrome r),
                 top_l = map_option (Qubit (nm @ ''_data'')) (top_l r),
                 top_r = map_option (Qubit (nm @ ''_data'')) (top_r r),
                 bot_l = map_option (Qubit (nm @ ''_data'')) (bot_l r),
                 bot_r = map_option (Qubit (nm @ ''_data'')) (bot_r r) \<rparr> c
         = (None, c\<lparr> instrs := instrs c @ spec_z_protocol nm r \<rparr>)"
  using assms
  by (cases "top_l r"; cases "top_r r"; cases "bot_l r"; cases "bot_r r")
     (simp_all add: ZZZZ_entangle_def spec_z_protocol_def circ_cx_def emit_def skip_def)

lemma geometry_syndromes:
  assumes "dd mod 2 = 1" "1 \<le> dd" "params_of_d dd P" "geometry_of P = Inr g"
    and "r \<in> set (mx g) \<union> set (mz g)"
  shows "0 \<le> syndrome r \<and> syndrome r < num_syn P"
proof -
  from assms(1-3) obtain p where n: "(dd ^ 2 - 1) div 2 = 2 * p * (p + 1)"
    and g': "geometry_of P = Inr \<lparr> mx = map (mx_plaquette dd) (py_range (2 * p * (p + 1))),
                            mz = map (mz_plaquette dd) (py_range (2 * p * (p + 1))) \<rparr>"
    by (auto elim: geometry_of_distance)
  from g' assms(4) have g: "g = \<lparr> mx = map (mx_plaquette dd) (py_range (2 * p * (p + 1))),
                            mz = map (mz_plaquette dd) (py_range (2 * p * (p + 1))) \<rparr>" by simp
  have "num_syn P = 2 * p * (p + 1)" using assms(3) n by (simp add: params_of_d_def)
  then show ?thesis using assms(5) unfolding g by (auto simp: set_py_range)
qed

lemma geometry_pairs:
  assumes "dd mod 2 = 1" "1 \<le> dd" "params_of_d dd P" "geometry_of P = Inr g"
  shows "r \<in> set (mx g) \<Longrightarrow> (top_r r = None \<longleftrightarrow> top_l r = None) \<and> (bot_r r = None \<longleftrightarrow> bot_l r = None)"
    and "r \<in> set (mz g) \<Longrightarrow> (top_r r = None \<longleftrightarrow> bot_r r = None) \<and> (top_l r = None \<longleftrightarrow> bot_l r = None)"
proof -
  from assms(1-3) obtain p where
    g': "geometry_of P = Inr \<lparr> mx = map (mx_plaquette dd) (py_range (2 * p * (p + 1))),
                            mz = map (mz_plaquette dd) (py_range (2 * p * (p + 1))) \<rparr>"
    by (auto elim: geometry_of_distance)
  from g' assms(4) have g: "g = \<lparr> mx = map (mx_plaquette dd) (py_range (2 * p * (p + 1))),
                            mz = map (mz_plaquette dd) (py_range (2 * p * (p + 1))) \<rparr>" by simp
  show "r \<in> set (mx g) \<Longrightarrow> (top_r r = None \<longleftrightarrow> top_l r = None) \<and> (bot_r r = None \<longleftrightarrow> bot_l r = None)"
    unfolding g by (auto simp: mx_plaquette_def Let_def)
  show "r \<in> set (mz g) \<Longrightarrow> (top_r r = None \<longleftrightarrow> bot_r r = None) \<and> (top_l r = None \<longleftrightarrow> bot_l r = None)"
    unfolding g by (auto simp: mz_plaquette_def Let_def)
qed

lemma gen_qubit_indices_and_stabilizers_odd:
  assumes "dd mod 2 = 1" "1 \<le> dd" "params_of_d dd P" "geometry_of P = Inr g"
  shows "gen_qubit_indices_and_stabilizers P (init_qregisters P nm) =
           Inr (g, map (to_qubits (nm @ ''_mx'') (nm @ ''_data'')) (mx g)
                    @ map (to_qubits (nm @ ''_mz'') (nm @ ''_data'')) (mz g),
                map (\<lambda>_. XXXX) (mx g) @ map (\<lambda>_. ZZZZ) (mz g))"
proof -
  have nd: "num_data P = dd ^ 2" using assms(3) by (simp add: params_of_d_def)
  have x: "plaquette_qubits (nm @ ''_mx'', num_syn P) (nm @ ''_data'', num_data P) r
             = Inr (to_qubits (nm @ ''_mx'') (nm @ ''_data'') r)" if "r \<in> set (mx g)" for r
    unfolding to_qubits_def
  proof (rule plaquette_qubits_in_range)
    show "0 \<le> syndrome r" "syndrome r < num_syn P"
      using geometry_syndromes[OF assms, of r] that by simp_all
    fix k assume "Some k \<in> set (neighbours r)"
    then show "0 \<le> k \<and> k < num_data P"
      using geometry_in_range[OF assms, of r k] that by (simp add: nd)
  qed
  have z: "plaquette_qubits (nm @ ''_mz'', num_syn P) (nm @ ''_data'', num_data P) r
             = Inr (to_qubits (nm @ ''_mz'') (nm @ ''_data'') r)" if "r \<in> set (mz g)" for r
    unfolding to_qubits_def
  proof (rule plaquette_qubits_in_range)
    show "0 \<le> syndrome r" "syndrome r < num_syn P"
      using geometry_syndromes[OF assms, of r] that by simp_all
    fix k assume "Some k \<in> set (neighbours r)"
    then show "0 \<le> k \<and> k < num_data P"
      using geometry_in_range[OF assms, of r k] that by (simp add: nd)
  qed
  show ?thesis
    by (simp add: gen_qubit_indices_and_stabilizers_def assms(4) init_qregisters_def
        map_err_all_Inr[of _ _ "to_qubits (nm @ ''_mx'') (nm @ ''_data'')", OF x]
        map_err_all_Inr[of _ _ "to_qubits (nm @ ''_mz'') (nm @ ''_data'')", OF z])
qed

lemma run_append:
  "run (fs @ gs) c = (case run fs c of (None, c') \<Rightarrow> run gs c' | (Some e, c') \<Rightarrow> (Some e, c'))"
  by (induction fs arbitrary: c) (auto split: prod.splits option.splits)

lemma lattice_entangle_geometry:
  assumes "dd mod 2 = 1" "1 \<le> dd" "params_of_d dd P" "geometry_of P = Inr g"
  shows "lattice_entangle
           (map (to_qubits (nm @ ''_mx'') (nm @ ''_data'')) (mx g)
              @ map (to_qubits (nm @ ''_mz'') (nm @ ''_data'')) (mz g))
           (map (\<lambda>_. XXXX) (mx g) @ map (\<lambda>_. ZZZZ) (mz g)) c
         = (None, c\<lparr> instrs := instrs c @ concat (map (spec_x_protocol nm) (mx g))
                                          @ concat (map (spec_z_protocol nm) (mz g)) \<rparr>)"
proof -
  have zx: "map stabilizer_entangle (zip (map (to_qubits (nm @ ''_mx'') (nm @ ''_data'')) (mx g))
                                         (map (\<lambda>_. XXXX) (mx g)))
        = map (\<lambda>r. XXXX_entangle (to_qubits (nm @ ''_mx'') (nm @ ''_data'') r)) (mx g)"
    by (simp add: zip_map_map stabilizer_entangle_def zip_same_conv_map comp_def)
  have zz: "map stabilizer_entangle (zip (map (to_qubits (nm @ ''_mz'') (nm @ ''_data'')) (mz g))
                                         (map (\<lambda>_. ZZZZ) (mz g)))
        = map (\<lambda>r. ZZZZ_entangle (to_qubits (nm @ ''_mz'') (nm @ ''_data'') r)) (mz g)"
    by (simp add: zip_map_map stabilizer_entangle_def zip_same_conv_map comp_def)
  have rx: "run (map (\<lambda>r. XXXX_entangle (to_qubits (nm @ ''_mx'') (nm @ ''_data'') r)) (mx g)) c
        = (None, c\<lparr> instrs := instrs c @ concat (map (spec_x_protocol nm) (mx g)) \<rparr>)" for c
  proof (rule run_emits)
    fix r c assume "r \<in> set (mx g)"
    from geometry_pairs(1)[OF assms this]
    show "XXXX_entangle (to_qubits (nm @ ''_mx'') (nm @ ''_data'') r) c
          = (None, c\<lparr> instrs := instrs c @ spec_x_protocol nm r \<rparr>)"
      unfolding to_qubits_def by (intro XXXX_entangle_record) simp_all
  qed
  have rz: "run (map (\<lambda>r. ZZZZ_entangle (to_qubits (nm @ ''_mz'') (nm @ ''_data'') r)) (mz g)) c
        = (None, c\<lparr> instrs := instrs c @ concat (map (spec_z_protocol nm) (mz g)) \<rparr>)" for c
  proof (rule run_emits)
    fix r c assume "r \<in> set (mz g)"
    from geometry_pairs(2)[OF assms this]
    show "ZZZZ_entangle (to_qubits (nm @ ''_mz'') (nm @ ''_data'') r) c
          = (None, c\<lparr> instrs := instrs c @ spec_z_protocol nm r \<rparr>)"
      unfolding to_qubits_def by (intro ZZZZ_entangle_record) simp_all
  qed
  show ?thesis
    by (simp add: lattice_entangle_def zx zz run_append rx rz)
qed

lemma XXZZQubit_init_odd:
  assumes "ps ''d'' = Some dd" "dd mod 2 = 1" "1 \<le> dd"
  obtains P g where
    "P = \<lparr> param_d = dd, param_T = - 1, num_readout = - 1, num_lattice_readout = - 1,
           num_data = dd ^ 2, num_syn = (dd ^ 2 - 1) div 2 \<rparr>"
    "geometry_of P = Inr g"
    "XXZZQubit_init ps nm c0 =
       Inr \<lparr> tq_name = nm, tq_circ = c0, tq_params = P,
             tq_qregisters = init_qregisters P nm, tq_cregisters = Map.empty,
             tq_geometry = g,
             tq_qubit_indices = map (to_qubits (nm @ ''_mx'') (nm @ ''_data'')) (mx g)
                    @ map (to_qubits (nm @ ''_mz'') (nm @ ''_data'')) (mz g),
             tq_stabilizers = map (\<lambda>_. XXXX) (mx g) @ map (\<lambda>_. ZZZZ) (mz g) \<rparr>"
proof -
  define P where "P = \<lparr> param_d = dd, param_T = - 1, num_readout = - 1, num_lattice_readout = - 1,
           num_data = dd ^ 2, num_syn = (dd ^ 2 - 1) div 2 \<rparr>"
  have ip: "init_params ps = Inr P" using assms(1,2) by (simp add: init_params_def P_def)
  have pd: "params_of_d dd P" by (simp add: params_of_d_def P_def)
  obtain g where g: "geometry_of P = Inr g"
    using geometry_of_distance[OF assms(2,3) pd] by metis
  show ?thesis
    by (rule that[OF P_def g])
       (simp add: XXZZQubit_init_def ip
          gen_qubit_indices_and_stabilizers_odd[OF assms(2,3) pd g])
qed

lemma creg_slice_halves:
  assumes "0 \<le> n"
  shows "creg_slice (nm, n * 2) 0 n = map (Clbit nm) [0..n - 1]"
    and "creg_slice (nm, n * 2) n (n * 2) = map (Clbit nm) [n..n * 2 - 1]"
  using assms by (simp_all add: creg_slice_def slice_bound_def)


section \<open>Claims about the geometry\<close>

text \<open>
  Claim C2. For every odd distance \<open>d \<ge> 3\<close>, \<open>_geometry\<close> returns exactly \<open>(d\<^sup>2 - 1) / 2\<close>
  plaquette records in each of the families \<open>"mx"\<close> and \<open>"mz"\<close>, and every neighbour
  index that is not \<open>None\<close>, in any record, lies in \<open>[0, d\<^sup>2)\<close>.
\<close>

theorem geometry_counts_and_range:
  assumes "dd mod 2 = 1" "3 \<le> dd" "params_of_d dd P"
  shows "\<exists>g. geometry_of P = Inr g \<and>
           int (length (mx g)) = (dd ^ 2 - 1) div 2 \<and>
           int (length (mz g)) = (dd ^ 2 - 1) div 2 \<and>
           (\<forall>q \<in> set (mx g) \<union> set (mz g). \<forall>k. Some k \<in> set (neighbours q) \<longrightarrow> 0 \<le> k \<and> k < dd ^ 2)"
proof -
  from assms obtain p where p: "0 \<le> p" "dd = 2 * p + 1"
    and n: "(dd ^ 2 - 1) div 2 = 2 * p * (p + 1)"
    and g: "geometry_of P = Inr \<lparr> mx = map (mx_plaquette dd) (py_range (2 * p * (p + 1))),
                            mz = map (mz_plaquette dd) (py_range (2 * p * (p + 1))) \<rparr>"
    by (auto elim: geometry_of_distance)
  have p1: "1 \<le> p" using assms(2) p by simp
  have nn: "0 \<le> 2 * p * (p + 1)" using p by simp
  have rng: "0 \<le> k \<and> k < dd ^ 2"
    if "q \<in> set (map (mx_plaquette dd) (py_range (2 * p * (p + 1)))) \<union>
            set (map (mz_plaquette dd) (py_range (2 * p * (p + 1))))"
       "Some k \<in> set (neighbours q)" for q k
  proof -
    from that(1) obtain s where s: "0 \<le> s" "s < 2 * p * (p + 1)"
      and q: "q = mx_plaquette (2 * p + 1) s \<or> q = mz_plaquette (2 * p + 1) s"
      by (auto simp: set_py_range p(2))
    from q have "0 \<le> k div (2 * p + 1) \<and> k div (2 * p + 1) \<le> 2 * p"
    proof
      assume "q = mx_plaquette (2 * p + 1) s"
      with that(2) mx_neighbour_form[OF p1 s, of k] show ?thesis by simp
    next
      assume "q = mz_plaquette (2 * p + 1) s"
      with that(2) mz_neighbour_form[OF p1 s, of k] show ?thesis by simp
    qed
    then show ?thesis using index_in_range[of k p] p1 p(2) by simp
  qed
  let ?G = "\<lparr> mx = map (mx_plaquette dd) (py_range (2 * p * (p + 1))),
              mz = map (mz_plaquette dd) (py_range (2 * p * (p + 1))) \<rparr>"
  have len: "int (length (mx ?G)) = (dd ^ 2 - 1) div 2" "int (length (mz ?G)) = (dd ^ 2 - 1) div 2"
    using nn by (simp_all add: n py_range_def)
  have "\<forall>q \<in> set (mx ?G) \<union> set (mz ?G). \<forall>k. Some k \<in> set (neighbours q) \<longrightarrow> 0 \<le> k \<and> k < dd ^ 2"
    using rng by simp
  with g len show ?thesis by blast
qed

text \<open>The theorem at distance 3.\<close>

theorem geometry_counts_and_range_witness:
  "\<exists>g. geometry_of \<lparr> param_d = 3, param_T = - 1, num_readout = - 1, num_lattice_readout = - 1,
                  num_data = 9, num_syn = 4 \<rparr> = Inr g \<and>
       int (length (mx g)) = 4 \<and> int (length (mz g)) = 4 \<and>
       (\<forall>q \<in> set (mx g) \<union> set (mz g). \<forall>k. Some k \<in> set (neighbours q) \<longrightarrow> 0 \<le> k \<and> k < 9)"
  using geometry_counts_and_range [of 3 "\<lparr> param_d = 3, param_T = - 1, num_readout = - 1,
      num_lattice_readout = - 1, num_data = 9, num_syn = 4 \<rparr>"]
  by (simp add: params_of_d_def)

text \<open>
  Claim C6. For every odd distance \<open>d \<ge> 1\<close>, every X record of \<open>_geometry\<close> has
  \<open>top_r\<close> absent iff \<open>top_l\<close> absent and \<open>bot_r\<close> absent iff \<open>bot_l\<close> absent, and every
  Z record has \<open>top_r\<close> absent iff \<open>bot_r\<close> absent and \<open>top_l\<close> absent iff \<open>bot_l\<close> absent.
\<close>

theorem geometry_pairs_symmetric:
  assumes "dd mod 2 = 1" "1 \<le> dd" "params_of_d dd P"
  shows "\<exists>g. geometry_of P = Inr g \<and>
           (\<forall>q \<in> set (mx g). (top_r q = None \<longleftrightarrow> top_l q = None) \<and>
                               (bot_r q = None \<longleftrightarrow> bot_l q = None)) \<and>
           (\<forall>q \<in> set (mz g). (top_r q = None \<longleftrightarrow> bot_r q = None) \<and>
                               (top_l q = None \<longleftrightarrow> bot_l q = None))"
proof -
  from assms obtain p where
    g: "geometry_of P = Inr \<lparr> mx = map (mx_plaquette dd) (py_range (2 * p * (p + 1))),
                            mz = map (mz_plaquette dd) (py_range (2 * p * (p + 1))) \<rparr>"
    by (auto elim: geometry_of_distance)
  have x: "(top_r (mx_plaquette dd s) = None \<longleftrightarrow> top_l (mx_plaquette dd s) = None) \<and>
           (bot_r (mx_plaquette dd s) = None \<longleftrightarrow> bot_l (mx_plaquette dd s) = None)" for s
    by (simp add: mx_plaquette_def Let_def)
  have z: "(top_r (mz_plaquette dd s) = None \<longleftrightarrow> bot_r (mz_plaquette dd s) = None) \<and>
           (top_l (mz_plaquette dd s) = None \<longleftrightarrow> bot_l (mz_plaquette dd s) = None)" for s
    by (simp add: mz_plaquette_def Let_def)
  let ?G = "\<lparr> mx = map (mx_plaquette dd) (py_range (2 * p * (p + 1))),
              mz = map (mz_plaquette dd) (py_range (2 * p * (p + 1))) \<rparr>"
  have X: "\<forall>q \<in> set (mx ?G). (top_r q = None \<longleftrightarrow> top_l q = None) \<and>
                               (bot_r q = None \<longleftrightarrow> bot_l q = None)"
    using x by simp
  have Z: "\<forall>q \<in> set (mz ?G). (top_r q = None \<longleftrightarrow> bot_r q = None) \<and>
                               (top_l q = None \<longleftrightarrow> bot_l q = None)"
    using z by simp
  from g X Z show ?thesis by blast
qed

text \<open>The theorem at distance 5.\<close>

theorem geometry_pairs_symmetric_witness:
  "\<exists>g. geometry_of \<lparr> param_d = 5, param_T = - 1, num_readout = - 1, num_lattice_readout = - 1,
                  num_data = 25, num_syn = 12 \<rparr> = Inr g \<and> length (mx g) = 12 \<and>
           (\<forall>q \<in> set (mx g). (top_r q = None \<longleftrightarrow> top_l q = None) \<and>
                               (bot_r q = None \<longleftrightarrow> bot_l q = None)) \<and>
           (\<forall>q \<in> set (mz g). (top_r q = None \<longleftrightarrow> bot_r q = None) \<and>
                               (top_l q = None \<longleftrightarrow> bot_l q = None))"
proof -
  have "length (py_range 12) = 12" by (simp add: py_range_def)
  then show ?thesis
    using geometry_pairs_symmetric [of 5 "\<lparr> param_d = 5, param_T = - 1, num_readout = - 1,
      num_lattice_readout = - 1, num_data = 25, num_syn = 12 \<rparr>"]
    by (auto simp: params_of_d_def geometry_of_def Let_def per_row_x_def per_row_z_def)
qed

text \<open>
  Claim C8, as amended. For every odd distance \<open>d \<ge> 3\<close>, every data index occurs as a
  neighbour in at most two X records and in at most two Z records of the geometry, and each
  of the four corner positions \<open>0\<close>, \<open>d - 1\<close>, \<open>d\<^sup>2 - d\<close>, \<open>d\<^sup>2 - 1\<close> occurs in at most
  one record of each family.
\<close>

theorem data_index_occurrences:
  assumes "dd mod 2 = 1" "3 \<le> dd" "params_of_d dd P"
  shows "\<exists>g. geometry_of P = Inr g \<and>
           (\<forall>k. occurrences (mx g) k \<le> 2 \<and> occurrences (mz g) k \<le> 2) \<and>
           (\<forall>k \<in> {0, dd - 1, dd ^ 2 - dd, dd ^ 2 - 1}.
              occurrences (mx g) k \<le> 1 \<and> occurrences (mz g) k \<le> 1)"
proof -
  from assms obtain p where p: "0 \<le> p" "dd = 2 * p + 1"
    and g: "geometry_of P = Inr \<lparr> mx = map (mx_plaquette dd) (py_range (2 * p * (p + 1))),
                            mz = map (mz_plaquette dd) (py_range (2 * p * (p + 1))) \<rparr>"
    by (auto elim: geometry_of_distance)
  have p1: "1 \<le> p" using assms(2) p by simp
  let ?G = "\<lparr> mx = map (mx_plaquette dd) (py_range (2 * p * (p + 1))),
              mz = map (mz_plaquette dd) (py_range (2 * p * (p + 1))) \<rparr>"
  have two: "\<forall>k. occurrences (mx ?G) k \<le> 2 \<and> occurrences (mz ?G) k \<le> 2"
    using mx_occurrences_le2[OF p1] mz_occurrences_le2[OF p1] by (simp add: p(2))
  have one: "\<forall>k \<in> {0, dd - 1, dd ^ 2 - dd, dd ^ 2 - 1}.
              occurrences (mx ?G) k \<le> 1 \<and> occurrences (mz ?G) k \<le> 1"
    using mx_occurrences_corner[OF p1] mz_occurrences_corner[OF p1] unfolding p(2)
    by (intro ballI conjI) simp_all
  from g two one show ?thesis by blast
qed

text \<open>The theorem at distance 3, with the corner \<open>8\<close>.\<close>

theorem data_index_occurrences_witness:
  "\<exists>g. geometry_of \<lparr> param_d = 3, param_T = - 1, num_readout = - 1, num_lattice_readout = - 1,
                  num_data = 9, num_syn = 4 \<rparr> = Inr g \<and>
           (\<forall>k. occurrences (mx g) k \<le> 2 \<and> occurrences (mz g) k \<le> 2) \<and>
           occurrences (mx g) 8 \<le> 1 \<and> occurrences (mz g) 8 \<le> 1"
  using data_index_occurrences [of 3 "\<lparr> param_d = 3, param_T = - 1, num_readout = - 1,
      num_lattice_readout = - 1, num_data = 9, num_syn = 4 \<rparr>"]
  by (auto simp: params_of_d_def)

text \<open>
  Claim C8 as stated fails: at distance 3 the centre of the grid, index \<open>4\<close>, is no corner
  and is a neighbour in two X records and in two Z records.
\<close>

theorem data_index_in_two_plaquettes:
  "\<exists>g. geometry_of \<lparr> param_d = 3, param_T = - 1, num_readout = - 1, num_lattice_readout = - 1,
                  num_data = 9, num_syn = 4 \<rparr> = Inr g \<and>
       (4::int) \<notin> {0, 3 - 1, 3 ^ 2 - 3, 3 ^ 2 - 1} \<and>
       occurrences (mx g) 4 = 2 \<and> occurrences (mz g) 4 = 2"
  by (simp add: geometry_d3 occurrences_def neighbours_def)

text \<open>
  Claim C9, as amended. For every odd distance \<open>d \<ge> 3\<close>, the Z family is laid out with
  \<open>per_row = (d + 1) / 2\<close> plaquettes per row over \<open>d - 1\<close> rows (row indices \<open>0 .. d - 2\<close>);
  in an even row the last plaquette has its right pair absent and its left pair present,
  in an odd row the first plaquette has its left pair absent and its right pair present,
  and every other plaquette has its four neighbours.
\<close>

theorem mz_layout:
  assumes "dd mod 2 = 1" "3 \<le> dd" "params_of_d dd P"
  shows "\<exists>g. geometry_of P = Inr g \<and>
           (\<lambda>q. mz_row dd (syndrome q)) ` set (mz g) = {0..dd - 2} \<and>
           (\<forall>r \<in> {0..dd - 2}.
              int (length (filter (\<lambda>q. mz_row dd (syndrome q) = r) (mz g))) = (dd + 1) div 2) \<and>
           (\<forall>q \<in> set (mz g).
              if mz_row dd (syndrome q) mod 2 = 0 \<and> mz_offset dd (syndrome q) = (dd + 1) div 2 - 1
              then top_r q = None \<and> bot_r q = None \<and> top_l q \<noteq> None \<and> bot_l q \<noteq> None
              else if mz_row dd (syndrome q) mod 2 = 1 \<and> mz_offset dd (syndrome q) = 0
              then top_l q = None \<and> bot_l q = None \<and> top_r q \<noteq> None \<and> bot_r q \<noteq> None
              else top_l q \<noteq> None \<and> top_r q \<noteq> None \<and> bot_l q \<noteq> None \<and> bot_r q \<noteq> None)"
proof -
  from assms obtain p where p: "0 \<le> p" "dd = 2 * p + 1"
    and g: "geometry_of P = Inr \<lparr> mx = map (mx_plaquette dd) (py_range (2 * p * (p + 1))),
                            mz = map (mz_plaquette dd) (py_range (2 * p * (p + 1))) \<rparr>"
    by (auto elim: geometry_of_distance)
  have p1: "1 \<le> p" using assms(2) p by simp
  let ?G = "\<lparr> mx = map (mx_plaquette dd) (py_range (2 * p * (p + 1))),
              mz = map (mz_plaquette dd) (py_range (2 * p * (p + 1))) \<rparr>"
  have d2: "dd - 2 = 2 * p - 1" "(dd + 1) div 2 = p + 1" using p by simp_all
  have "(\<lambda>q. mz_row dd (syndrome q)) ` set (mz ?G) = mz_row dd ` set (py_range (2 * p * (p + 1)))"
    by (simp add: image_image)
  then have rows: "(\<lambda>q. mz_row dd (syndrome q)) ` set (mz ?G) = {0..dd - 2}"
    using mz_rows_spanned[OF p1] by (simp add: p(2))
  have cnt: "\<forall>r \<in> {0..dd - 2}.
      int (length (filter (\<lambda>q. mz_row dd (syndrome q) = r) (mz ?G))) = (dd + 1) div 2"
  proof
    fix r assume "r \<in> {0..dd - 2}"
    then have r: "0 \<le> r" "r \<le> 2 * p - 1" using d2 by simp_all
    have "filter (\<lambda>q. mz_row dd (syndrome q) = r) (mz ?G)
         = map (mz_plaquette dd) (filter (\<lambda>s. mz_row dd s = r) (py_range (2 * p * (p + 1))))"
      by (simp add: filter_map comp_def)
    then show "int (length (filter (\<lambda>q. mz_row dd (syndrome q) = r) (mz ?G))) = (dd + 1) div 2"
      using mz_row_count[OF p1 r] p1 by (simp add: p(2))
  qed
  have trunc: "\<forall>q \<in> set (mz ?G).
              if mz_row dd (syndrome q) mod 2 = 0 \<and> mz_offset dd (syndrome q) = (dd + 1) div 2 - 1
              then top_r q = None \<and> bot_r q = None \<and> top_l q \<noteq> None \<and> bot_l q \<noteq> None
              else if mz_row dd (syndrome q) mod 2 = 1 \<and> mz_offset dd (syndrome q) = 0
              then top_l q = None \<and> bot_l q = None \<and> top_r q \<noteq> None \<and> bot_r q \<noteq> None
              else top_l q \<noteq> None \<and> top_r q \<noteq> None \<and> bot_l q \<noteq> None \<and> bot_r q \<noteq> None"
  proof
    fix q assume "q \<in> set (mz ?G)"
    then obtain s where q: "q = mz_plaquette dd s" by auto
    show "if mz_row dd (syndrome q) mod 2 = 0 \<and> mz_offset dd (syndrome q) = (dd + 1) div 2 - 1
              then top_r q = None \<and> bot_r q = None \<and> top_l q \<noteq> None \<and> bot_l q \<noteq> None
              else if mz_row dd (syndrome q) mod 2 = 1 \<and> mz_offset dd (syndrome q) = 0
              then top_l q = None \<and> bot_l q = None \<and> top_r q \<noteq> None \<and> bot_r q \<noteq> None
              else top_l q \<noteq> None \<and> top_r q \<noteq> None \<and> bot_l q \<noteq> None \<and> bot_r q \<noteq> None"
      unfolding q syndrome_mz_plaquette
      by (simp add: mz_plaquette_def Let_def per_row_z_def)
  qed
  from g rows cnt trunc show ?thesis by blast
qed

text \<open>The theorem at distance 3: two rows of two plaquettes.\<close>

theorem mz_layout_witness:
  "\<exists>g. geometry_of \<lparr> param_d = 3, param_T = - 1, num_readout = - 1, num_lattice_readout = - 1,
                  num_data = 9, num_syn = 4 \<rparr> = Inr g \<and>
       (\<lambda>q. mz_row 3 (syndrome q)) ` set (mz g) = {0..1} \<and>
       length (filter (\<lambda>q. mz_row 3 (syndrome q) = 0) (mz g)) = 2 \<and>
       length (filter (\<lambda>q. mz_row 3 (syndrome q) = 1) (mz g)) = 2 \<and>
       top_r (mz g ! 1) = None \<and> top_l (mz g ! 2) = None"
  using mz_layout [of 3 "\<lparr> param_d = 3, param_T = - 1, num_readout = - 1,
      num_lattice_readout = - 1, num_data = 9, num_syn = 4 \<rparr>"]
  by (auto simp: params_of_d_def geometry_d3 mz_row_def mz_offset_def per_row_z_def)

text \<open>
  Claim C9 as stated fails: at distance 3 the rows of the Z family are \<open>0\<close> and \<open>1\<close>, not
  the three rows \<open>0 .. d - 1\<close>.
\<close>

theorem mz_rows_at_distance_3:
  "\<exists>g. geometry_of \<lparr> param_d = 3, param_T = - 1, num_readout = - 1, num_lattice_readout = - 1,
                  num_data = 9, num_syn = 4 \<rparr> = Inr g \<and>
       (\<lambda>q. mz_row 3 (syndrome q)) ` set (mz g) = {0, 1} \<and>
       (\<lambda>q. mz_row 3 (syndrome q)) ` set (mz g) \<noteq> {0..3 - 1}"
proof -
  have "{0, 1} \<noteq> {0..(2::int)}" by (auto simp: set_eq_iff intro: exI[of _ 2])
  then show ?thesis by (simp add: geometry_d3 mz_row_def per_row_z_def)
qed

section \<open>Claims about construction\<close>

text \<open>
  Claim C10. The validation of \<open>_XXZZLattice.__init__\<close> raises \<open>LatticeError\<close> iff the
  dictionary has no key \<open>"d"\<close> or \<open>d % 2 != 1\<close>, and raises nothing else; every odd integer
  is accepted, the negative ones too, and the derived sizes \<open>num_data = d\<^sup>2\<close> and
  \<open>num_syn = (d\<^sup>2 - 1) / 2\<close> are computed for it: for \<open>d = -3\<close> they are 9 and 4.
\<close>

theorem init_params_validation:
  "((\<exists>m. init_params ps = Inl (LatticeError m)) \<longleftrightarrow> (ps ''d'' = None \<or> the (ps ''d'') mod 2 \<noteq> 1)) \<and>
   (\<forall>e. init_params ps = Inl e \<longrightarrow> (\<exists>m. e = LatticeError m)) \<and>
   (\<forall>dd. ps ''d'' = Some dd \<and> dd mod 2 = 1 \<longrightarrow>
      (\<exists>P. init_params ps = Inr P \<and> param_d P = dd \<and> num_data P = dd ^ 2 \<and>
           num_syn P = (dd ^ 2 - 1) div 2 \<and> param_T P = - 1 \<and> num_readout P = - 1 \<and>
           num_lattice_readout P = - 1)) \<and>
   init_params [''d'' \<mapsto> - 3] =
     Inr \<lparr> param_d = - 3, param_T = - 1, num_readout = - 1, num_lattice_readout = - 1,
           num_data = 9, num_syn = 4 \<rparr>"
  by (auto simp: init_params_def split: option.splits)

text \<open>The theorem at \<open>d = -3\<close> and \<open>d = -1\<close>, beside an even distance and a missing key.\<close>

theorem init_params_validation_witness:
  "init_params [''d'' \<mapsto> - 3] =
     Inr \<lparr> param_d = - 3, param_T = - 1, num_readout = - 1, num_lattice_readout = - 1,
           num_data = 9, num_syn = 4 \<rparr> \<and>
   init_params [''d'' \<mapsto> 4] = Inl (LatticeError ''Surface code distance must be odd!'') \<and>
   init_params Map.empty = Inl (LatticeError ''Please include a d param.'') \<and>
   (\<exists>P. init_params [''d'' \<mapsto> - 1] = Inr P \<and> num_data P = 1 \<and> num_syn P = 0)"
proof -
  have a: "init_params [''d'' \<mapsto> 4] = Inl (LatticeError ''Surface code distance must be odd!'')"
    by (simp add: init_params_def)
  have b: "init_params Map.empty = Inl (LatticeError ''Please include a d param.'')"
    by (simp add: init_params_def)
  from init_params_validation [of "[''d'' \<mapsto> - 1]"]
  have c: "\<exists>P. init_params [''d'' \<mapsto> - 1] = Inr P \<and> num_data P = 1 \<and> num_syn P = 0"
    by auto
  from init_params_validation [of "[''d'' \<mapsto> - 3]"] a b c show ?thesis by blast
qed

section \<open>Claims about the stabilizer protocols\<close>

text \<open>
  Claim C5. For every 5-tuple that passes the check of its family (every tuple that meets
  the presence-symmetry constraints does), the X protocol emits exactly: a basis change on
  the syndrome unit; if the top pair is present, \<open>cx(syndrome, top_r)\<close> then
  \<open>cx(syndrome, top_l)\<close>; if the bottom pair is present, \<open>cx(syndrome, bot_r)\<close> then
  \<open>cx(syndrome, bot_l)\<close>; then the closing basis change. The Z protocol emits no basis
  change and exactly: if the right pair is present, \<open>cx(top_r, syndrome)\<close> then
  \<open>cx(bot_r, syndrome)\<close>; if the left pair is present, \<open>cx(top_l, syndrome)\<close> then
  \<open>cx(bot_l, syndrome)\<close>.
\<close>

theorem entangle_protocols:
  "(\<not> (top_r q \<noteq> None \<and> top_l q = None) \<and> \<not> (bot_r q \<noteq> None \<and> bot_l q = None) \<longrightarrow>
      XXXX_entangle q c =
        (None, c\<lparr> instrs := instrs c
           @ [Hadamard (syndrome q)]
           @ (if top_r q \<noteq> None \<and> top_l q \<noteq> None
              then [CNOT (syndrome q) (the (top_r q)), CNOT (syndrome q) (the (top_l q))] else [])
           @ (if bot_r q \<noteq> None \<and> bot_l q \<noteq> None
              then [CNOT (syndrome q) (the (bot_r q)), CNOT (syndrome q) (the (bot_l q))] else [])
           @ [Hadamard (syndrome q)] \<rparr>)) \<and>
   (\<not> (top_r q \<noteq> None \<and> bot_r q = None) \<and> \<not> (top_l q \<noteq> None \<and> bot_l q = None) \<longrightarrow>
      ZZZZ_entangle q c =
        (None, c\<lparr> instrs := instrs c
           @ (if top_r q \<noteq> None \<and> bot_r q \<noteq> None
              then [CNOT (the (top_r q)) (syndrome q), CNOT (the (bot_r q)) (syndrome q)] else [])
           @ (if top_l q \<noteq> None \<and> bot_l q \<noteq> None
              then [CNOT (the (top_l q)) (syndrome q), CNOT (the (bot_l q)) (syndrome q)] else []) \<rparr>))"
  by (cases "top_l q"; cases "top_r q"; cases "bot_l q"; cases "bot_r q")
     (simp_all add: XXXX_entangle_def ZZZZ_entangle_def circ_h_def circ_cx_def emit_def skip_def)

text \<open>The theorem at an inner X plaquette and at a Z plaquette of the last column.\<close>

theorem entangle_protocols_witness:
  "XXXX_entangle \<lparr> syndrome = Qubit ''q_mx'' 1, top_l = Some (Qubit ''q_data'' 1),
       top_r = Some (Qubit ''q_data'' 2), bot_l = Some (Qubit ''q_data'' 4),
       bot_r = Some (Qubit ''q_data'' 5) \<rparr> \<lparr> cregs = [], instrs = [] \<rparr>
   = (None, \<lparr> cregs = [], instrs =
        [Hadamard (Qubit ''q_mx'' 1),
         CNOT (Qubit ''q_mx'' 1) (Qubit ''q_data'' 2), CNOT (Qubit ''q_mx'' 1) (Qubit ''q_data'' 1),
         CNOT (Qubit ''q_mx'' 1) (Qubit ''q_data'' 5), CNOT (Qubit ''q_mx'' 1) (Qubit ''q_data'' 4),
         Hadamard (Qubit ''q_mx'' 1)] \<rparr>) \<and>
   ZZZZ_entangle \<lparr> syndrome = Qubit ''q_mz'' 1, top_l = Some (Qubit ''q_data'' 2),
       top_r = None, bot_l = Some (Qubit ''q_data'' 5), bot_r = None \<rparr>
       \<lparr> cregs = [], instrs = [] \<rparr>
   = (None, \<lparr> cregs = [], instrs =
        [CNOT (Qubit ''q_data'' 2) (Qubit ''q_mz'' 1),
         CNOT (Qubit ''q_data'' 5) (Qubit ''q_mz'' 1)] \<rparr>)"
  using entangle_protocols [of "\<lparr> syndrome = Qubit ''q_mx'' 1, top_l = Some (Qubit ''q_data'' 1),
       top_r = Some (Qubit ''q_data'' 2), bot_l = Some (Qubit ''q_data'' 4),
       bot_r = Some (Qubit ''q_data'' 5) \<rparr>" "\<lparr> cregs = [], instrs = [] \<rparr>"]
    entangle_protocols [of "\<lparr> syndrome = Qubit ''q_mz'' 1, top_l = Some (Qubit ''q_data'' 2),
       top_r = None, bot_l = Some (Qubit ''q_data'' 5), bot_r = None \<rparr>"
       "\<lparr> cregs = [], instrs = [] \<rparr>"]
  by simp

text \<open>
  Claim C7, as amended. The X protocol raises \<open>LatticeError\<close> iff \<open>top_r\<close> is present while
  \<open>top_l\<close> is absent, or \<open>bot_r\<close> is present while \<open>bot_l\<close> is absent; the Z protocol iff
  \<open>top_r\<close> is present while \<open>bot_r\<close> is absent, or \<open>top_l\<close> is present while \<open>bot_l\<close> is
  absent. The error carries one fixed message per family, and the circuit is left as it was:
  no operation is emitted.
\<close>

theorem entangle_errors:
  "(fst (XXXX_entangle q c) \<noteq> None \<longleftrightarrow>
      (top_r q \<noteq> None \<and> top_l q = None) \<or> (bot_r q \<noteq> None \<and> bot_l q = None)) \<and>
   ((top_r q \<noteq> None \<and> top_l q = None) \<or> (bot_r q \<noteq> None \<and> bot_l q = None) \<longrightarrow>
      XXXX_entangle q c = (Some (LatticeError ''Inconsistent X syndrome connections''), c)) \<and>
   (fst (ZZZZ_entangle q c) \<noteq> None \<longleftrightarrow>
      (top_r q \<noteq> None \<and> bot_r q = None) \<or> (top_l q \<noteq> None \<and> bot_l q = None)) \<and>
   ((top_r q \<noteq> None \<and> bot_r q = None) \<or> (top_l q \<noteq> None \<and> bot_l q = None) \<longrightarrow>
      ZZZZ_entangle q c = (Some (LatticeError ''Inconsistent Z syndrome connections''), c))"
  by (cases "top_l q"; cases "top_r q"; cases "bot_l q"; cases "bot_r q")
     (simp_all add: XXXX_entangle_def ZZZZ_entangle_def circ_h_def circ_cx_def emit_def skip_def
        raise_def)

text \<open>The theorem at one tuple of each family that fails the check.\<close>

theorem entangle_errors_witness:
  "XXXX_entangle \<lparr> syndrome = Qubit ''q_mx'' 0, top_l = None, top_r = Some (Qubit ''q_data'' 1),
       bot_l = None, bot_r = None \<rparr> \<lparr> cregs = [], instrs = [] \<rparr>
   = (Some (LatticeError ''Inconsistent X syndrome connections''), \<lparr> cregs = [], instrs = [] \<rparr>) \<and>
   ZZZZ_entangle \<lparr> syndrome = Qubit ''q_mz'' 0, top_l = Some (Qubit ''q_data'' 1), top_r = None,
       bot_l = None, bot_r = None \<rparr> \<lparr> cregs = [], instrs = [] \<rparr>
   = (Some (LatticeError ''Inconsistent Z syndrome connections''), \<lparr> cregs = [], instrs = [] \<rparr>)"
  using entangle_errors [of "\<lparr> syndrome = Qubit ''q_mx'' 0, top_l = None,
       top_r = Some (Qubit ''q_data'' 1), bot_l = None, bot_r = None \<rparr>"
       "\<lparr> cregs = [], instrs = [] \<rparr>"]
    entangle_errors [of "\<lparr> syndrome = Qubit ''q_mz'' 0, top_l = Some (Qubit ''q_data'' 1),
       top_r = None, bot_l = None, bot_r = None \<rparr>" "\<lparr> cregs = [], instrs = [] \<rparr>"]
  by simp

text \<open>
  Claim C7 as stated fails: an X tuple with \<open>top_l\<close> present and \<open>top_r\<close> absent violates
  "\<open>top_r\<close> present iff \<open>top_l\<close> present", yet the protocol raises nothing and emits the two
  basis changes; a Z tuple with only \<open>bot_l\<close> present raises nothing either.
\<close>

theorem entangle_accepts_half_pair:
  "\<not> (top_r \<lparr> syndrome = Qubit ''q_mx'' 0, top_l = Some (Qubit ''q_data'' 0), top_r = None,
       bot_l = None, bot_r = None \<rparr> \<noteq> None \<longleftrightarrow>
      top_l \<lparr> syndrome = Qubit ''q_mx'' 0, top_l = Some (Qubit ''q_data'' 0), top_r = None,
       bot_l = None, bot_r = None \<rparr> \<noteq> None) \<and>
   XXXX_entangle \<lparr> syndrome = Qubit ''q_mx'' 0, top_l = Some (Qubit ''q_data'' 0), top_r = None,
       bot_l = None, bot_r = None \<rparr> \<lparr> cregs = [], instrs = [] \<rparr>
   = (None, \<lparr> cregs = [], instrs = [Hadamard (Qubit ''q_mx'' 0), Hadamard (Qubit ''q_mx'' 0)] \<rparr>) \<and>
   ZZZZ_entangle \<lparr> syndrome = Qubit ''q_mz'' 0, top_l = None, top_r = None,
       bot_l = Some (Qubit ''q_data'' 3), bot_r = None \<rparr> \<lparr> cregs = [], instrs = [] \<rparr>
   = (None, \<lparr> cregs = [], instrs = [] \<rparr>)"
  by (simp add: XXXX_entangle_def ZZZZ_entangle_def circ_h_def circ_cx_def emit_def skip_def)

section \<open>Claims about the decoder\<close>

text \<open>
  Claim C4. For an odd distance \<open>d \<ge> 1\<close> and a final readout of at least \<open>d\<^sup>2\<close> digits,
  \<open>extract_final_stabilizer_and_logical_readout\<close> with readout type \<open>"X"\<close> (resp. \<open>"Z"\<close>)
  returns the logical bit that is the sum modulo 2 of the reversed readout's values at the
  indices \<open>0, d, 2d, ...\<close> (resp. \<open>0 .. d - 1\<close>), and the stabilizer string made of the new
  X half (resp. Z half), each bit the sum modulo 2 of the readout values at the present
  neighbours of a plaquette, spliced with the other half of \<open>previous_syndrome_string\<close>,
  copied as it is. For \<open>d = 3\<close>, the readout \<open>"111111111"\<close>, the previous string \<open>"00000000"\<close>
  and type \<open>"X"\<close> the result is the logical bit 1 and the string \<open>"00000000"\<close>.
\<close>

theorem final_readout_extraction:
  "(dd mod 2 = 1 \<and> 1 \<le> dd \<and> params_of_d dd P \<and> geometry_of P = Inr g \<and>
    map_err int_of_char fr = Inr vs \<and> dd ^ 2 \<le> int (length fr) \<longrightarrow>
      extract_final_stabilizer_and_logical_readout P g fr prev ''X'' =
        Inr (Some (spec_logical_x dd (rev vs),
                   spec_half (rev vs) (mx g) @ drop (nat (num_syn P)) prev)) \<and>
      extract_final_stabilizer_and_logical_readout P g fr prev ''Z'' =
        Inr (Some (spec_logical_z dd (rev vs),
                   take (nat (num_syn P)) prev @ spec_half (rev vs) (mz g)))) \<and>
   (\<exists>g3. geometry_of \<lparr> param_d = 3, param_T = - 1, num_readout = - 1, num_lattice_readout = - 1,
                  num_data = 9, num_syn = 4 \<rparr> = Inr g3 \<and>
      extract_final_stabilizer_and_logical_readout
        \<lparr> param_d = 3, param_T = - 1, num_readout = - 1, num_lattice_readout = - 1,
          num_data = 9, num_syn = 4 \<rparr> g3 ''111111111'' ''00000000'' ''X''
        = Inr (Some (1, ''00000000'')))"
proof (intro conjI impI)
  assume a: "dd mod 2 = 1 \<and> 1 \<le> dd \<and> params_of_d dd P \<and> geometry_of P = Inr g \<and>
    map_err int_of_char fr = Inr vs \<and> dd ^ 2 \<le> int (length fr)"
  then show "extract_final_stabilizer_and_logical_readout P g fr prev ''X'' =
        Inr (Some (spec_logical_x dd (rev vs),
                   spec_half (rev vs) (mx g) @ drop (nat (num_syn P)) prev))"
    using extract_x_readable[of dd P g fr vs prev]
    by (simp add: extract_final_stabilizer_and_logical_readout_def)
  from a show "extract_final_stabilizer_and_logical_readout P g fr prev ''Z'' =
        Inr (Some (spec_logical_z dd (rev vs),
                   take (nat (num_syn P)) prev @ spec_half (rev vs) (mz g)))"
    using extract_z_readable[of dd P g fr vs prev]
    by (simp add: extract_final_stabilizer_and_logical_readout_def)
next
  show "\<exists>g3. geometry_of \<lparr> param_d = 3, param_T = - 1, num_readout = - 1, num_lattice_readout = - 1,
                  num_data = 9, num_syn = 4 \<rparr> = Inr g3 \<and>
      extract_final_stabilizer_and_logical_readout
        \<lparr> param_d = 3, param_T = - 1, num_readout = - 1, num_lattice_readout = - 1,
          num_data = 9, num_syn = 4 \<rparr> g3 ''111111111'' ''00000000'' ''X''
        = Inr (Some (1, ''00000000''))"
    unfolding geometry_d3 by (intro exI conjI, rule refl) code_simp
qed


text \<open>The theorem at distance 3, readout \<open>"111111110"\<close> and previous string \<open>"10100101"\<close>.\<close>

theorem final_readout_extraction_witness:
  "\<exists>g3. geometry_of \<lparr> param_d = 3, param_T = - 1, num_readout = - 1, num_lattice_readout = - 1,
                  num_data = 9, num_syn = 4 \<rparr> = Inr g3 \<and>
      extract_final_stabilizer_and_logical_readout
        \<lparr> param_d = 3, param_T = - 1, num_readout = - 1, num_lattice_readout = - 1,
          num_data = 9, num_syn = 4 \<rparr> g3 ''111111110'' ''10100101'' ''X''
        = Inr (Some (0, ''00010101'')) \<and>
      extract_final_stabilizer_and_logical_readout
        \<lparr> param_d = 3, param_T = - 1, num_readout = - 1, num_lattice_readout = - 1,
          num_data = 9, num_syn = 4 \<rparr> g3 ''111111110'' ''10100101'' ''Z''
        = Inr (Some (0, ''10100001''))"
proof -
  let ?P = "\<lparr> param_d = 3, param_T = - 1, num_readout = - 1, num_lattice_readout = - 1,
                  num_data = 9, num_syn = 4 \<rparr>"
  let ?G = "\<lparr> mx = [\<lparr> syndrome = 0, top_l = None, top_r = None, bot_l = Some 0, bot_r = Some 1 \<rparr>,
                  \<lparr> syndrome = 1, top_l = Some 1, top_r = Some 2, bot_l = Some 4, bot_r = Some 5 \<rparr>,
                  \<lparr> syndrome = 2, top_l = Some 3, top_r = Some 4, bot_l = Some 6, bot_r = Some 7 \<rparr>,
                  \<lparr> syndrome = 3, top_l = Some 7, top_r = Some 8, bot_l = None, bot_r = None \<rparr>],
            mz = [\<lparr> syndrome = 0, top_l = Some 0, top_r = Some 1, bot_l = Some 3, bot_r = Some 4 \<rparr>,
                  \<lparr> syndrome = 1, top_l = Some 2, top_r = None, bot_l = Some 5, bot_r = None \<rparr>,
                  \<lparr> syndrome = 2, top_l = None, top_r = Some 3, bot_l = None, bot_r = Some 6 \<rparr>,
                  \<lparr> syndrome = 3, top_l = Some 4, top_r = Some 5, bot_l = Some 7, bot_r = Some 8 \<rparr>] \<rparr>"
  let ?vs = "[1, 1, 1, 1, 1, 1, 1, 1, 0 :: int]"
  have h: "(3::int) mod 2 = 1 \<and> 1 \<le> (3::int) \<and> params_of_d 3 ?P \<and> geometry_of ?P = Inr ?G \<and>
      map_err int_of_char ''111111110'' = Inr ?vs \<and> (3::int) ^ 2 \<le> int (length ''111111110'')"
    by (simp add: params_of_d_def geometry_d3 int_of_char_def)
  have x: "spec_logical_x 3 (rev ?vs) = 0" "spec_half (rev ?vs) (mx ?G) = ''0001''"
    "spec_logical_z 3 (rev ?vs) = 0" "spec_half (rev ?vs) (mz ?G) = ''0001''"
    by code_simp+
  from final_readout_extraction [of 3 ?P ?G "''111111110''" ?vs "''10100101''"] h
  have "extract_final_stabilizer_and_logical_readout ?P ?G ''111111110'' ''10100101'' ''X''
        = Inr (Some (0, ''00010101'')) \<and>
      extract_final_stabilizer_and_logical_readout ?P ?G ''111111110'' ''10100101'' ''Z''
        = Inr (Some (0, ''10100001''))"
    unfolding x by simp
  with geometry_d3 show ?thesis by blast
qed

text \<open>
  Claim C1. For every transcript whose first token is a single bit (and whose round tokens
  are binary strings, as the wire format has them), \<open>parse_readout\<close> returns that bit as
  the logical readout. With \<open>ints\<close> the round strings in reversed order, read as binary
  integers, the defects are: for every transition \<open>T\<close> between neighbours
  \<open>ints ! T\<close> and \<open>ints ! (T + 1)\<close> and every plaquette index \<open>loc\<close> below \<open>num_syn\<close>, an X
  defect \<open>(T, -0.5 + loc, 0.5 + loc mod 2)\<close> when bit \<open>num_syn + loc\<close> (the high half) of the
  XOR is set, and a Z defect \<open>(T, 0.5 + loc div 2, 0.5 + (loc mod 2) * 2 - loc div 2)\<close> when
  bit \<open>loc\<close> (the low half) is set, in this order.
\<close>

theorem parse_readout_single_bit:
  assumes "split_sp s = [b] # toks" "b = CHR ''0'' \<or> b = CHR ''1''"
    and "map_err int_base2 (rev toks) = Inr ints"
    and "0 < num_syn P \<or> length toks \<le> 1"
  shows "parse_readout P g s rt =
     Inr (if b = CHR ''1'' then 1 else 0,
          [(real T, - 0.5 + real_of_int loc, 0.5 + real_of_int (loc mod 2)).
             T \<leftarrow> [0..<length ints - 1], loc \<leftarrow> py_range (num_syn P),
             bit (ints ! T XOR ints ! Suc T) (nat (num_syn P) + nat loc)],
          [(real T, 0.5 + real_of_int (loc div 2),
              0.5 + real_of_int (loc mod 2) * 2 - real_of_int (loc div 2)).
             T \<leftarrow> [0..<length ints - 1], loc \<leftarrow> py_range (num_syn P),
             bit (ints ! T XOR ints ! Suc T) (nat loc)])"
proof -
  have c: "int_of_char b = Inr (if b = CHR ''1'' then 1 else 0)"
    using assms(2) by (auto simp: int_of_char_def)
  show ?thesis
    unfolding parse_readout_def assms(1)
    by (simp add: c decode_syndromes_readable[OF assms(3,4)])
qed

text \<open>The theorem at distance 3 and a transcript of four rounds.\<close>

theorem parse_readout_single_bit_witness:
  "\<forall>g rt. parse_readout \<lparr> param_d = 3, param_T = 3, num_readout = 0, num_lattice_readout = - 1,
                  num_data = 9, num_syn = 4 \<rparr> g ''1 10100000 10010000 00000000 11111111'' rt
     = Inr (1,
            [(0, - 1 / 2, 1 / 2), (0, 1 / 2, 3 / 2), (0, 3 / 2, 1 / 2), (0, 5 / 2, 3 / 2),
             (1, - 1 / 2, 1 / 2), (1, 5 / 2, 3 / 2), (2, - 1 / 2, 1 / 2), (2, 1 / 2, 3 / 2)],
            [(0, 1 / 2, 1 / 2), (0, 1 / 2, 5 / 2), (0, 3 / 2, - 1 / 2), (0, 3 / 2, 3 / 2)])"
proof (intro allI)
  fix g rt
  let ?P = "\<lparr> param_d = 3, param_T = 3, num_readout = 0, num_lattice_readout = - 1,
                  num_data = 9, num_syn = 4 \<rparr>"
  have s: "split_sp ''1 10100000 10010000 00000000 11111111''
             = [CHR ''1''] # [''10100000'', ''10010000'', ''00000000'', ''11111111'']"
    by simp
  have i: "map_err int_base2 (rev [''10100000'', ''10010000'', ''00000000'', ''11111111''])
             = Inr [255, 0, 144, 160]"
    by (simp add: int_base2_def bit_of_char_def)
  have n: "0 < num_syn ?P \<or> length [''10100000'', ''10010000'', ''00000000'', ''11111111''] \<le> 1"
    by simp
  show "parse_readout ?P g ''1 10100000 10010000 00000000 11111111'' rt
     = Inr (1,
            [(0, - 1 / 2, 1 / 2), (0, 1 / 2, 3 / 2), (0, 3 / 2, 1 / 2), (0, 5 / 2, 3 / 2),
             (1, - 1 / 2, 1 / 2), (1, 5 / 2, 3 / 2), (2, - 1 / 2, 1 / 2), (2, 1 / 2, 3 / 2)],
            [(0, 1 / 2, 1 / 2), (0, 1 / 2, 5 / 2), (0, 3 / 2, - 1 / 2), (0, 3 / 2, 3 / 2)])"
    unfolding parse_readout_single_bit [OF s _ i n, of g rt, simplified]
    by (simp add: py_range_def upto_rec1 bit_numeral_simps)
qed

section \<open>Claims about the stabilization round\<close>

text \<open>
  Claim C3. On a qubit built with an odd distance \<open>d \<ge> 1\<close>, whatever its counters, its
  classical registers and its circuit have become, every call of \<open>stabilize\<close> raises nothing,
  adds exactly 1 to the round counter \<open>T\<close>, allocates one classical register of size
  \<open>2 * num_syn\<close> named after the new \<open>T\<close>, applies the protocol of every plaquette, the X
  family then the Z family, measures the Z syndromes into the bits \<open>0 .. num_syn - 1\<close> and
  the X syndromes into the bits \<open>num_syn .. 2 * num_syn - 1\<close> of that register, resets both
  syndrome registers and ends with a barrier. Nothing else of the qubit changes.
\<close>

theorem stabilize_round:
  assumes "ps ''d'' = Some dd" "dd mod 2 = 1" "1 \<le> dd"
  shows "\<exists>q0. XXZZQubit_init ps nm c0 = Inr q0 \<and>
     geometry_of (tq_params q0) = Inr (tq_geometry q0) \<and>
     num_syn (tq_params q0) = (dd ^ 2 - 1) div 2 \<and>
     (\<forall>t a b cr c.
        stabilize (q0\<lparr> tq_params := (tq_params q0)\<lparr> param_T := t, num_readout := a,
                                                       num_lattice_readout := b \<rparr>,
                        tq_cregisters := cr, tq_circ := c \<rparr>)
        = (None,
           q0\<lparr> tq_params := (tq_params q0)\<lparr> param_T := t + 1, num_readout := a,
                                                num_lattice_readout := b \<rparr>,
               tq_cregisters :=
                 cr(''syndrome'' @ str_int (t + 1)
                      \<mapsto> (nm @ ''_c'' @ str_int (t + 1), (dd ^ 2 - 1) div 2 * 2)),
               tq_circ :=
                 \<lparr> cregs = cregs c @ [(nm @ ''_c'' @ str_int (t + 1), (dd ^ 2 - 1) div 2 * 2)],
                   instrs = instrs c
                     @ concat (map (spec_x_protocol nm) (mx (tq_geometry q0)))
                     @ concat (map (spec_z_protocol nm) (mz (tq_geometry q0)))
                     @ [Measure (map (Qubit (nm @ ''_mz'')) [0..(dd ^ 2 - 1) div 2 - 1])
                                (map (Clbit (nm @ ''_c'' @ str_int (t + 1)))
                                   [0..(dd ^ 2 - 1) div 2 - 1]),
                        Measure (map (Qubit (nm @ ''_mx'')) [0..(dd ^ 2 - 1) div 2 - 1])
                                (map (Clbit (nm @ ''_c'' @ str_int (t + 1)))
                                   [(dd ^ 2 - 1) div 2..(dd ^ 2 - 1) div 2 * 2 - 1]),
                        Reset (map (Qubit (nm @ ''_mz'')) [0..(dd ^ 2 - 1) div 2 - 1]),
                        Reset (map (Qubit (nm @ ''_mx'')) [0..(dd ^ 2 - 1) div 2 - 1]),
                        Barrier] \<rparr> \<rparr>))"
proof -
  obtain P g where P: "P = \<lparr> param_d = dd, param_T = - 1, num_readout = - 1,
           num_lattice_readout = - 1, num_data = dd ^ 2, num_syn = (dd ^ 2 - 1) div 2 \<rparr>"
    and g: "geometry_of P = Inr g"
    and i: "XXZZQubit_init ps nm c0 =
       Inr \<lparr> tq_name = nm, tq_circ = c0, tq_params = P,
             tq_qregisters = init_qregisters P nm, tq_cregisters = Map.empty,
             tq_geometry = g,
             tq_qubit_indices = map (to_qubits (nm @ ''_mx'') (nm @ ''_data'')) (mx g)
                    @ map (to_qubits (nm @ ''_mz'') (nm @ ''_data'')) (mz g),
             tq_stabilizers = map (\<lambda>_. XXXX) (mx g) @ map (\<lambda>_. ZZZZ) (mz g) \<rparr>"
    by (rule XXZZQubit_init_odd[of ps dd nm c0, OF assms])
  have pd: "params_of_d dd P" by (simp add: params_of_d_def P)
  have n: "0 \<le> (dd ^ 2 - 1) div 2" using assms(3) by simp
  note le = lattice_entangle_geometry[OF assms(2,3) pd g, of nm]
  note sl = creg_slice_halves[OF n]
  let ?q0 = "\<lparr> tq_name = nm, tq_circ = c0, tq_params = P,
             tq_qregisters = init_qregisters P nm, tq_cregisters = Map.empty,
             tq_geometry = g,
             tq_qubit_indices = map (to_qubits (nm @ ''_mx'') (nm @ ''_data'')) (mx g)
                    @ map (to_qubits (nm @ ''_mz'') (nm @ ''_data'')) (mz g),
             tq_stabilizers = map (\<lambda>_. XXXX) (mx g) @ map (\<lambda>_. ZZZZ) (mz g) \<rparr>"
  have "stabilize (?q0\<lparr> tq_params := (tq_params ?q0)\<lparr> param_T := t, num_readout := a,
                                                       num_lattice_readout := b \<rparr>,
                        tq_cregisters := cr, tq_circ := c \<rparr>)
        = (None,
           ?q0\<lparr> tq_params := (tq_params ?q0)\<lparr> param_T := t + 1, num_readout := a,
                                                num_lattice_readout := b \<rparr>,
               tq_cregisters :=
                 cr(''syndrome'' @ str_int (t + 1)
                      \<mapsto> (nm @ ''_c'' @ str_int (t + 1), (dd ^ 2 - 1) div 2 * 2)),
               tq_circ :=
                 \<lparr> cregs = cregs c @ [(nm @ ''_c'' @ str_int (t + 1), (dd ^ 2 - 1) div 2 * 2)],
                   instrs = instrs c
                     @ concat (map (spec_x_protocol nm) (mx (tq_geometry ?q0)))
                     @ concat (map (spec_z_protocol nm) (mz (tq_geometry ?q0)))
                     @ [Measure (map (Qubit (nm @ ''_mz'')) [0..(dd ^ 2 - 1) div 2 - 1])
                                (map (Clbit (nm @ ''_c'' @ str_int (t + 1)))
                                   [0..(dd ^ 2 - 1) div 2 - 1]),
                        Measure (map (Qubit (nm @ ''_mx'')) [0..(dd ^ 2 - 1) div 2 - 1])
                                (map (Clbit (nm @ ''_c'' @ str_int (t + 1)))
                                   [(dd ^ 2 - 1) div 2..(dd ^ 2 - 1) div 2 * 2 - 1]),
                        Reset (map (Qubit (nm @ ''_mz'')) [0..(dd ^ 2 - 1) div 2 - 1]),
                        Reset (map (Qubit (nm @ ''_mx'')) [0..(dd ^ 2 - 1) div 2 - 1]),
                        Barrier] \<rparr> \<rparr>)" for t a b cr c
    by (simp add: stabilize_def Let_def on_circ_def add_register_def le emit_def sl P
        init_qregisters_def reg_qubits_def py_range_def)
  then show ?thesis using i g P by (intro exI[of _ ?q0]) simp
qed

text \<open>The theorem at distance 3: two rounds on a fresh qubit named \<open>t\<close>.\<close>

theorem stabilize_round_witness:
  "\<exists>q0 q1 q2.
     XXZZQubit_init [''d'' \<mapsto> 3] ''t'' \<lparr> cregs = [], instrs = [] \<rparr> = Inr q0 \<and>
     stabilize q0 = (None, q1) \<and> stabilize q1 = (None, q2) \<and>
     param_T (tq_params q0) = - 1 \<and> param_T (tq_params q1) = 0 \<and> param_T (tq_params q2) = 1 \<and>
     cregs (tq_circ q1) = [(''t_c0'', 8)] \<and>
     cregs (tq_circ q2) = [(''t_c0'', 8), (''t_c1'', 8)] \<and>
     tq_cregisters q2 ''syndrome0'' = Some (''t_c0'', 8) \<and>
     tq_cregisters q2 ''syndrome1'' = Some (''t_c1'', 8) \<and>
     length (instrs (tq_circ q2)) = 74 \<and>
     instrs (tq_circ q1) = [
          Hadamard (Qubit ''t_mx'' 0),
          CNOT (Qubit ''t_mx'' 0) (Qubit ''t_data'' 1),
          CNOT (Qubit ''t_mx'' 0) (Qubit ''t_data'' 0),
          Hadamard (Qubit ''t_mx'' 0),
          Hadamard (Qubit ''t_mx'' 1),
          CNOT (Qubit ''t_mx'' 1) (Qubit ''t_data'' 2),
          CNOT (Qubit ''t_mx'' 1) (Qubit ''t_data'' 1),
          CNOT (Qubit ''t_mx'' 1) (Qubit ''t_data'' 5),
          CNOT (Qubit ''t_mx'' 1) (Qubit ''t_data'' 4),
          Hadamard (Qubit ''t_mx'' 1),
          Hadamard (Qubit ''t_mx'' 2),
          CNOT (Qubit ''t_mx'' 2) (Qubit ''t_data'' 4),
          CNOT (Qubit ''t_mx'' 2) (Qubit ''t_data'' 3),
          CNOT (Qubit ''t_mx'' 2) (Qubit ''t_data'' 7),
          CNOT (Qubit ''t_mx'' 2) (Qubit ''t_data'' 6),
          Hadamard (Qubit ''t_mx'' 2),
          Hadamard (Qubit ''t_mx'' 3),
          CNOT (Qubit ''t_mx'' 3) (Qubit ''t_data'' 8),
          CNOT (Qubit ''t_mx'' 3) (Qubit ''t_data'' 7),
          Hadamard (Qubit ''t_mx'' 3),
          CNOT (Qubit ''t_data'' 1) (Qubit ''t_mz'' 0),
          CNOT (Qubit ''t_data'' 4) (Qubit ''t_mz'' 0),
          CNOT (Qubit ''t_data'' 0) (Qubit ''t_mz'' 0),
          CNOT (Qubit ''t_data'' 3) (Qubit ''t_mz'' 0),
          CNOT (Qubit ''t_data'' 2) (Qubit ''t_mz'' 1),
          CNOT (Qubit ''t_data'' 5) (Qubit ''t_mz'' 1),
          CNOT (Qubit ''t_data'' 3) (Qubit ''t_mz'' 2),
          CNOT (Qubit ''t_data'' 6) (Qubit ''t_mz'' 2),
          CNOT (Qubit ''t_data'' 5) (Qubit ''t_mz'' 3),
          CNOT (Qubit ''t_data'' 8) (Qubit ''t_mz'' 3),
          CNOT (Qubit ''t_data'' 4) (Qubit ''t_mz'' 3),
          CNOT (Qubit ''t_data'' 7) (Qubit ''t_mz'' 3),
          Measure [Qubit ''t_mz'' 0, Qubit ''t_mz'' 1, Qubit ''t_mz'' 2, Qubit ''t_mz'' 3] [Clbit ''t_c0'' 0, Clbit ''t_c0'' 1, Clbit ''t_c0'' 2, Clbit ''t_c0'' 3],
          Measure [Qubit ''t_mx'' 0, Qubit ''t_mx'' 1, Qubit ''t_mx'' 2, Qubit ''t_mx'' 3] [Clbit ''t_c0'' 4, Clbit ''t_c0'' 5, Clbit ''t_c0'' 6, Clbit ''t_c0'' 7],
          Reset [Qubit ''t_mz'' 0, Qubit ''t_mz'' 1, Qubit ''t_mz'' 2, Qubit ''t_mz'' 3],
          Reset [Qubit ''t_mx'' 0, Qubit ''t_mx'' 1, Qubit ''t_mx'' 2, Qubit ''t_mx'' 3],
          Barrier]"
proof -
  let ?c0 = "\<lparr> cregs = [], instrs = [] \<rparr>"
  have d: "[''d'' \<mapsto> 3 :: int] ''d'' = Some 3" "(3 :: int) mod 2 = 1" "1 \<le> (3 :: int)"
    by simp_all
  from stabilize_round [of "[''d'' \<mapsto> 3]" 3 "''t''" ?c0, OF d]
  obtain q0 where i: "XXZZQubit_init [''d'' \<mapsto> 3] ''t'' ?c0 = Inr q0"
    and g: "geometry_of (tq_params q0) = Inr (tq_geometry q0)"
    and S: "\<forall>t a b cr c. stabilize (q0\<lparr> tq_params := (tq_params q0)\<lparr> param_T := t, num_readout := a,
                                                       num_lattice_readout := b \<rparr>,
                        tq_cregisters := cr, tq_circ := c \<rparr>)
        = (None,
           q0\<lparr> tq_params := (tq_params q0)\<lparr> param_T := t + 1, num_readout := a,
                                                num_lattice_readout := b \<rparr>,
               tq_cregisters :=
                 cr(''syndrome'' @ str_int (t + 1)
                      \<mapsto> (''t'' @ ''_c'' @ str_int (t + 1), (3 ^ 2 - 1) div 2 * 2)),
               tq_circ :=
                 \<lparr> cregs = cregs c @ [(''t'' @ ''_c'' @ str_int (t + 1), (3 ^ 2 - 1) div 2 * 2)],
                   instrs = instrs c
                     @ concat (map (spec_x_protocol ''t'') (mx (tq_geometry q0)))
                     @ concat (map (spec_z_protocol ''t'') (mz (tq_geometry q0)))
                     @ [Measure (map (Qubit (''t'' @ ''_mz'')) [0..(3 ^ 2 - 1) div 2 - 1])
                                (map (Clbit (''t'' @ ''_c'' @ str_int (t + 1)))
                                   [0..(3 ^ 2 - 1) div 2 - 1]),
                        Measure (map (Qubit (''t'' @ ''_mx'')) [0..(3 ^ 2 - 1) div 2 - 1])
                                (map (Clbit (''t'' @ ''_c'' @ str_int (t + 1)))
                                   [(3 ^ 2 - 1) div 2..(3 ^ 2 - 1) div 2 * 2 - 1]),
                        Reset (map (Qubit (''t'' @ ''_mz'')) [0..(3 ^ 2 - 1) div 2 - 1]),
                        Reset (map (Qubit (''t'' @ ''_mx'')) [0..(3 ^ 2 - 1) div 2 - 1]),
                        Barrier] \<rparr> \<rparr>)"
    by blast
  have P: "tq_params q0 = \<lparr> param_d = 3, param_T = - 1, num_readout = - 1, num_lattice_readout = - 1,
                  num_data = 9, num_syn = 4 \<rparr>"
    "tq_cregisters q0 = Map.empty" "tq_circ q0 = ?c0"
    using i by (auto simp: XXZZQubit_init_def init_params_def split: sum.splits prod.splits)
  have G: "tq_geometry q0 = \<lparr> mx = [\<lparr> syndrome = 0, top_l = None, top_r = None, bot_l = Some 0, bot_r = Some 1 \<rparr>,
                  \<lparr> syndrome = 1, top_l = Some 1, top_r = Some 2, bot_l = Some 4, bot_r = Some 5 \<rparr>,
                  \<lparr> syndrome = 2, top_l = Some 3, top_r = Some 4, bot_l = Some 6, bot_r = Some 7 \<rparr>,
                  \<lparr> syndrome = 3, top_l = Some 7, top_r = Some 8, bot_l = None, bot_r = None \<rparr>],
            mz = [\<lparr> syndrome = 0, top_l = Some 0, top_r = Some 1, bot_l = Some 3, bot_r = Some 4 \<rparr>,
                  \<lparr> syndrome = 1, top_l = Some 2, top_r = None, bot_l = Some 5, bot_r = None \<rparr>,
                  \<lparr> syndrome = 2, top_l = None, top_r = Some 3, bot_l = None, bot_r = Some 6 \<rparr>,
                  \<lparr> syndrome = 3, top_l = Some 4, top_r = Some 5, bot_l = Some 7, bot_r = Some 8 \<rparr>] \<rparr>"
    using g geometry_d3 unfolding P by simp
  have str: "str_int 0 = ''0''" "str_int 1 = ''1''"
    by (simp_all add: str_int_def str_nat.simps[of 0] str_nat.simps[of "Suc 0"] digit_char_def)
  have e0: "q0\<lparr> tq_params := (tq_params q0)\<lparr> param_T := - 1, num_readout := - 1,
                                              num_lattice_readout := - 1 \<rparr>,
               tq_cregisters := Map.empty, tq_circ := ?c0 \<rparr> = q0"
    using P by simp
  define q1 where "q1 = snd (stabilize q0)"
  define q2 where "q2 = snd (stabilize q1)"
  from S have "stabilize (q0\<lparr> tq_params := (tq_params q0)\<lparr> param_T := - 1, num_readout := - 1,
                                              num_lattice_readout := - 1 \<rparr>,
               tq_cregisters := Map.empty, tq_circ := ?c0 \<rparr>) = (None, q1)"
    unfolding q1_def e0 by (metis e0 snd_conv)
  then have s1: "stabilize q0 = (None, q1)" unfolding e0 .
  from S[rule_format, where t = "- 1" and a = "- 1" and b = "- 1" and cr = Map.empty and c = ?c0] s1
  have q1: "q1 = q0\<lparr> tq_params := (tq_params q0)\<lparr> param_T := 0 \<rparr>,
                    tq_cregisters := [''syndrome0'' \<mapsto> (''t_c0'', 8)],
                    tq_circ := \<lparr> cregs = [(''t_c0'', 8)], instrs = [
          Hadamard (Qubit ''t_mx'' 0),
          CNOT (Qubit ''t_mx'' 0) (Qubit ''t_data'' 1),
          CNOT (Qubit ''t_mx'' 0) (Qubit ''t_data'' 0),
          Hadamard (Qubit ''t_mx'' 0),
          Hadamard (Qubit ''t_mx'' 1),
          CNOT (Qubit ''t_mx'' 1) (Qubit ''t_data'' 2),
          CNOT (Qubit ''t_mx'' 1) (Qubit ''t_data'' 1),
          CNOT (Qubit ''t_mx'' 1) (Qubit ''t_data'' 5),
          CNOT (Qubit ''t_mx'' 1) (Qubit ''t_data'' 4),
          Hadamard (Qubit ''t_mx'' 1),
          Hadamard (Qubit ''t_mx'' 2),
          CNOT (Qubit ''t_mx'' 2) (Qubit ''t_data'' 4),
          CNOT (Qubit ''t_mx'' 2) (Qubit ''t_data'' 3),
          CNOT (Qubit ''t_mx'' 2) (Qubit ''t_data'' 7),
          CNOT (Qubit ''t_mx'' 2) (Qubit ''t_data'' 6),
          Hadamard (Qubit ''t_mx'' 2),
          Hadamard (Qubit ''t_mx'' 3),
          CNOT (Qubit ''t_mx'' 3) (Qubit ''t_data'' 8),
          CNOT (Qubit ''t_mx'' 3) (Qubit ''t_data'' 7),
          Hadamard (Qubit ''t_mx'' 3),
          CNOT (Qubit ''t_data'' 1) (Qubit ''t_mz'' 0),
          CNOT (Qubit ''t_data'' 4) (Qubit ''t_mz'' 0),
          CNOT (Qubit ''t_data'' 0) (Qubit ''t_mz'' 0),
          CNOT (Qubit ''t_data'' 3) (Qubit ''t_mz'' 0),
          CNOT (Qubit ''t_data'' 2) (Qubit ''t_mz'' 1),
          CNOT (Qubit ''t_data'' 5) (Qubit ''t_mz'' 1),
          CNOT (Qubit ''t_data'' 3) (Qubit ''t_mz'' 2),
          CNOT (Qubit ''t_data'' 6) (Qubit ''t_mz'' 2),
          CNOT (Qubit ''t_data'' 5) (Qubit ''t_mz'' 3),
          CNOT (Qubit ''t_data'' 8) (Qubit ''t_mz'' 3),
          CNOT (Qubit ''t_data'' 4) (Qubit ''t_mz'' 3),
          CNOT (Qubit ''t_data'' 7) (Qubit ''t_mz'' 3),
          Measure [Qubit ''t_mz'' 0, Qubit ''t_mz'' 1, Qubit ''t_mz'' 2, Qubit ''t_mz'' 3] [Clbit ''t_c0'' 0, Clbit ''t_c0'' 1, Clbit ''t_c0'' 2, Clbit ''t_c0'' 3],
          Measure [Qubit ''t_mx'' 0, Qubit ''t_mx'' 1, Qubit ''t_mx'' 2, Qubit ''t_mx'' 3] [Clbit ''t_c0'' 4, Clbit ''t_c0'' 5, Clbit ''t_c0'' 6, Clbit ''t_c0'' 7],
          Reset [Qubit ''t_mz'' 0, Qubit ''t_mz'' 1, Qubit ''t_mz'' 2, Qubit ''t_mz'' 3],
          Reset [Qubit ''t_mx'' 0, Qubit ''t_mx'' 1, Qubit ''t_mx'' 2, Qubit ''t_mx'' 3],
          Barrier] \<rparr> \<rparr>"
    unfolding e0 by (simp add: P G str spec_x_protocol_def spec_z_protocol_def upto_rec1)
  have e1: "q0\<lparr> tq_params := (tq_params q0)\<lparr> param_T := 0, num_readout := - 1,
                                              num_lattice_readout := - 1 \<rparr>,
               tq_cregisters := tq_cregisters q1, tq_circ := tq_circ q1 \<rparr> = q1"
    unfolding q1 using P by simp
  from S[rule_format, where t = 0 and a = "- 1" and b = "- 1" and cr = "tq_cregisters q1"
      and c = "tq_circ q1"]
  have s2: "stabilize q1 = (None, q2)"
    unfolding e1 q2_def by simp
  from S[rule_format, where t = 0 and a = "- 1" and b = "- 1" and cr = "tq_cregisters q1"
      and c = "tq_circ q1"] s2
  have q2: "param_T (tq_params q2) = 1" "cregs (tq_circ q2) = [(''t_c0'', 8), (''t_c1'', 8)]"
    "tq_cregisters q2 ''syndrome0'' = Some (''t_c0'', 8)"
    "tq_cregisters q2 ''syndrome1'' = Some (''t_c1'', 8)"
    "length (instrs (tq_circ q2)) = 74"
    unfolding e1 by (auto simp: q1 P G str spec_x_protocol_def spec_z_protocol_def upto_rec1)
  have "param_T (tq_params q0) = - 1" "param_T (tq_params q1) = 0"
    "cregs (tq_circ q1) = [(''t_c0'', 8)]" "instrs (tq_circ q1) = [
          Hadamard (Qubit ''t_mx'' 0),
          CNOT (Qubit ''t_mx'' 0) (Qubit ''t_data'' 1),
          CNOT (Qubit ''t_mx'' 0) (Qubit ''t_data'' 0),
          Hadamard (Qubit ''t_mx'' 0),
          Hadamard (Qubit ''t_mx'' 1),
          CNOT (Qubit ''t_mx'' 1) (Qubit ''t_data'' 2),
          CNOT (Qubit ''t_mx'' 1) (Qubit ''t_data'' 1),
          CNOT (Qubit ''t_mx'' 1) (Qubit ''t_data'' 5),
          CNOT (Qubit ''t_mx'' 1) (Qubit ''t_data'' 4),
          Hadamard (Qubit ''t_mx'' 1),
          Hadamard (Qubit ''t_mx'' 2),
          CNOT (Qubit ''t_mx'' 2) (Qubit ''t_data'' 4),
          CNOT (Qubit ''t_mx'' 2) (Qubit ''t_data'' 3),
          CNOT (Qubit ''t_mx'' 2) (Qubit ''t_data'' 7),
          CNOT (Qubit ''t_mx'' 2) (Qubit ''t_data'' 6),
          Hadamard (Qubit ''t_mx'' 2),
          Hadamard (Qubit ''t_mx'' 3),
          CNOT (Qubit ''t_mx'' 3) (Qubit ''t_data'' 8),
          CNOT (Qubit ''t_mx'' 3) (Qubit ''t_data'' 7),
          Hadamard (Qubit ''t_mx'' 3),
          CNOT (Qubit ''t_data'' 1) (Qubit ''t_mz'' 0),
          CNOT (Qubit ''t_data'' 4) (Qubit ''t_mz'' 0),
          CNOT (Qubit ''t_data'' 0) (Qubit ''t_mz'' 0),
          CNOT (Qubit ''t_data'' 3) (Qubit ''t_mz'' 0),
          CNOT (Qubit ''t_data'' 2) (Qubit ''t_mz'' 1),
          CNOT (Qubit ''t_data'' 5) (Qubit ''t_mz'' 1),
          CNOT (Qubit ''t_data'' 3) (Qubit ''t_mz'' 2),
          CNOT (Qubit ''t_data'' 6) (Qubit ''t_mz'' 2),
          CNOT (Qubit ''t_data'' 5) (Qubit ''t_mz'' 3),
          CNOT (Qubit ''t_data'' 8) (Qubit ''t_mz'' 3),
          CNOT (Qubit ''t_data'' 4) (Qubit ''t_mz'' 3),
          CNOT (Qubit ''t_data'' 7) (Qubit ''t_mz'' 3),
          Measure [Qubit ''t_mz'' 0, Qubit ''t_mz'' 1, Qubit ''t_mz'' 2, Qubit ''t_mz'' 3] [Clbit ''t_c0'' 0, Clbit ''t_c0'' 1, Clbit ''t_c0'' 2, Clbit ''t_c0'' 3],
          Measure [Qubit ''t_mx'' 0, Qubit ''t_mx'' 1, Qubit ''t_mx'' 2, Qubit ''t_mx'' 3] [Clbit ''t_c0'' 4, Clbit ''t_c0'' 5, Clbit ''t_c0'' 6, Clbit ''t_c0'' 7],
          Reset [Qubit ''t_mz'' 0, Qubit ''t_mz'' 1, Qubit ''t_mz'' 2, Qubit ''t_mz'' 3],
          Reset [Qubit ''t_mx'' 0, Qubit ''t_mx'' 1, Qubit ''t_mx'' 2, Qubit ''t_mx'' 3],
          Barrier]"
    by (simp_all add: q1 P)
  with i s1 s2 q2 show ?thesis by blast
qed

end
